theory Spec2Isabelle
  imports Complex_Main "HOL-Library.Log_Nat" "HOL-Library.Sublist"
begin

section \<open>JavaScript numbers\<close>

text \<open>
  Every number in \<^verbatim>\<open>server.js\<close> is an IEEE-754 binary64 value. A finite double is
  modelled by the rational it denotes, and each arithmetic operation computes the exact
  rational result and rounds it to the nearest double, ties to even, with gradual
  underflow below \<open>2^-1022\<close> and overflow to an infinity from \<open>2^1024 - 2^970\<close> on.
  The two zeros are identified: the values stored by the loader are never \<open>-0\<close>
  (it is falsy, so \<^verbatim>\<open>||\<close> replaces it), no modelled division has a divisor that can
  be \<open>-0\<close>, and \<^verbatim>\<open>=== 0\<close>, \<^verbatim>\<open>> 0\<close> and \<^verbatim>\<open>toFixed\<close> do not tell the zeros
  apart.
\<close>

datatype jsnum = NaN | PInf | NInf | Fin rat

definition pow2 :: "int \<Rightarrow> rat" where
  "pow2 k = (if 0 \<le> k then 2 ^ nat k else 1 / 2 ^ nat (- k))"

definition pow10 :: "int \<Rightarrow> rat" where
  "pow10 k = (if 0 \<le> k then 10 ^ nat k else 1 / 10 ^ nat (- k))"

text \<open>For \<open>a > 0\<close>: the exponent \<open>e\<close> with \<open>2^e \<le> a < 2^(e+1)\<close>.\<close>

definition floor_log2 :: "rat \<Rightarrow> int" where
  "floor_log2 a = (if 1 \<le> a then bitlen \<lfloor>a\<rfloor> - 1 else - bitlen (\<lceil>1 / a\<rceil> - 1))"

definition round_half_even_from :: "int \<Rightarrow> rat \<Rightarrow> int" where
  "round_half_even_from f x =
     (if x - of_int f < 1 / 2 then f
      else if 1 / 2 < x - of_int f then f + 1
      else if even f then f else f + 1)"

definition round_half_even :: "rat \<Rightarrow> int" where
  "round_half_even x = round_half_even_from \<lfloor>x\<rfloor> x"

text \<open>The spacing of the doubles around \<open>a > 0\<close>; below \<open>2^-1022\<close> it stays \<open>2^-1074\<close>.\<close>

definition quantum :: "rat \<Rightarrow> rat" where
  "quantum a = pow2 (max (floor_log2 a) (- 1022) - 52)"

definition round_to_quantum :: "rat \<Rightarrow> rat \<Rightarrow> rat" where
  "round_to_quantum q a = of_int (round_half_even (a / q)) * q"

definition finite_or_inf :: "bool \<Rightarrow> rat \<Rightarrow> jsnum" where
  "finite_or_inf neg v =
     (if pow2 1024 \<le> v then (if neg then NInf else PInf) else Fin (if neg then - v else v))"

definition round_double :: "rat \<Rightarrow> jsnum" where
  "round_double r =
     (if r = 0 then Fin 0
      else finite_or_inf (r < 0) (round_to_quantum (quantum \<bar>r\<bar>) \<bar>r\<bar>))"

text \<open>A value is a double when rounding leaves it alone.\<close>

definition is_double :: "jsnum \<Rightarrow> bool" where
  "is_double x = (case x of Fin r \<Rightarrow> round_double r = Fin r | _ \<Rightarrow> True)"

fun js_neg :: "jsnum \<Rightarrow> jsnum" where
  "js_neg NaN = NaN"
| "js_neg PInf = NInf"
| "js_neg NInf = PInf"
| "js_neg (Fin a) = Fin (- a)"

fun js_add :: "jsnum \<Rightarrow> jsnum \<Rightarrow> jsnum" where
  "js_add NaN y = NaN"
| "js_add x NaN = NaN"
| "js_add PInf NInf = NaN"
| "js_add NInf PInf = NaN"
| "js_add PInf y = PInf"
| "js_add NInf y = NInf"
| "js_add (Fin a) PInf = PInf"
| "js_add (Fin a) NInf = NInf"
| "js_add (Fin a) (Fin b) = round_double (a + b)"

definition js_sub :: "jsnum \<Rightarrow> jsnum \<Rightarrow> jsnum" where
  "js_sub x y = js_add x (js_neg y)"

text \<open>The sign of a value: \<open>-1\<close>, \<open>0\<close> or \<open>1\<close> (\<open>0\<close> for NaN).\<close>

fun js_sign :: "jsnum \<Rightarrow> int" where
  "js_sign NaN = 0"
| "js_sign PInf = 1"
| "js_sign NInf = - 1"
| "js_sign (Fin a) = (if a < 0 then - 1 else if a = 0 then 0 else 1)"

definition signed_inf :: "int \<Rightarrow> jsnum" where
  "signed_inf s = (if s < 0 then NInf else PInf)"

fun js_mul :: "jsnum \<Rightarrow> jsnum \<Rightarrow> jsnum" where
  "js_mul NaN y = NaN"
| "js_mul x NaN = NaN"
| "js_mul (Fin a) (Fin b) = round_double (a * b)"
| "js_mul x y =
     (if js_sign x = 0 \<or> js_sign y = 0 then NaN else signed_inf (js_sign x * js_sign y))"

fun js_div :: "jsnum \<Rightarrow> jsnum \<Rightarrow> jsnum" where
  "js_div NaN y = NaN"
| "js_div x NaN = NaN"
| "js_div (Fin a) (Fin b) =
     (if b = 0 then (if a = 0 then NaN else signed_inf (js_sign (Fin a)))
      else round_double (a / b))"
| "js_div (Fin a) y = Fin 0"
| "js_div x (Fin b) = signed_inf (js_sign x * (if b < 0 then - 1 else 1))"
| "js_div x y = NaN"

text \<open>\<^verbatim>\<open>x > y\<close> and \<^verbatim>\<open>x === y\<close> on numbers, \<^verbatim>\<open>isNaN\<close>, truthiness, \<^verbatim>\<open>a || b\<close>.\<close>

fun js_gt :: "jsnum \<Rightarrow> jsnum \<Rightarrow> bool" where
  "js_gt NaN y = False"
| "js_gt x NaN = False"
| "js_gt (Fin a) (Fin b) = (b < a)"
| "js_gt PInf y = (y \<noteq> PInf)"
| "js_gt NInf y = False"
| "js_gt (Fin a) y = (y = NInf)"

definition js_strict_eq :: "jsnum \<Rightarrow> jsnum \<Rightarrow> bool" where
  "js_strict_eq x y = (x \<noteq> NaN \<and> x = y)"

definition isNaN :: "jsnum \<Rightarrow> bool" where
  "isNaN x = (x = NaN)"

definition truthy :: "jsnum \<Rightarrow> bool" where
  "truthy x = (x \<noteq> NaN \<and> x \<noteq> Fin 0)"

definition js_or :: "jsnum \<Rightarrow> jsnum \<Rightarrow> jsnum" where
  "js_or a b = (if truthy a then a else b)"

subsection \<open>\<^verbatim>\<open>Math.sqrt\<close> and \<^verbatim>\<open>Math.pow\<close>\<close>

definition isqrt_step :: "int \<Rightarrow> int \<Rightarrow> int" where
  "isqrt_step n r = (if (r + 1) * (r + 1) \<le> n then r + 1 else r)"

function isqrt :: "int \<Rightarrow> int" where
  "isqrt n =
     (if n < 4 then (if n \<le> 0 then 0 else 1) else isqrt_step n (2 * isqrt (n div 4)))"
  by pat_completeness auto
termination
  by (relation "measure nat") auto

text \<open>
  The correctly rounded square root of \<open>a > 0\<close>. The argument is scaled by a power of
  four, \<open>t = a * 4^s\<close>, until the integer square root \<open>n\<close> of \<open>t\<close> has more than 55 bits;
  every real strictly between \<open>n\<close> and \<open>n + 1\<close> then rounds like \<open>n + 1/2\<close>.
\<close>

definition sqrt_inexact :: "rat \<Rightarrow> int \<Rightarrow> rat" where
  "sqrt_inexact t n = (if of_int (n * n) = t then of_int n else of_int n + 1 / 2)"

definition sqrt_scaled :: "int \<Rightarrow> rat \<Rightarrow> rat" where
  "sqrt_scaled s t = sqrt_inexact t (isqrt \<lfloor>t\<rfloor>) * pow2 (- s)"

definition sqrt_shift :: "rat \<Rightarrow> int \<Rightarrow> jsnum" where
  "sqrt_shift a s = round_double (sqrt_scaled s (a * pow2 (2 * s)))"

definition sqrt_double :: "rat \<Rightarrow> jsnum" where
  "sqrt_double a = sqrt_shift a (55 - floor_log2 a div 2)"

fun js_sqrt :: "jsnum \<Rightarrow> jsnum" where
  "js_sqrt NaN = NaN"
| "js_sqrt PInf = PInf"
| "js_sqrt NInf = NaN"
| "js_sqrt (Fin a) = (if a < 0 then NaN else if a = 0 then Fin 0 else sqrt_double a)"

text \<open>
  \<^verbatim>\<open>Math.pow(x, 2)\<close>: the engines' \<^verbatim>\<open>pow\<close> returns \<^verbatim>\<open>x * x\<close> for the exponent 2
  (NaN for NaN, \<open>+\<infinity>\<close> for an infinity, \<open>0\<close> for a zero).
\<close>

definition js_pow2 :: "jsnum \<Rightarrow> jsnum" where
  "js_pow2 x = js_mul x x"

subsection \<open>\<^verbatim>\<open>Number.prototype.toFixed\<close>\<close>

text \<open>
  A string produced from a number. \<open>NumberToString x\<close> stands for the exponential
  notation that \<^verbatim>\<open>toFixed\<close> falls back to for \<open>|x| \<ge> 10^21\<close>; its digits are not modelled.
\<close>

datatype jstext = Text string | NumberToString jsnum

definition digit_char :: "nat \<Rightarrow> char" where
  "digit_char k = ''0123456789'' ! k"

function dec_string :: "nat \<Rightarrow> string" where
  "dec_string n =
     (if n < 10 then [digit_char n] else dec_string (n div 10) @ [digit_char (n mod 10)])"
  by pat_completeness auto
termination
  by (relation "measure id") auto

text \<open>Steps 10 and 11 of \<^verbatim>\<open>toFixed\<close>: pad with zeros to \<open>f + 1\<close> digits, insert the point.\<close>

definition pad_zeros :: "nat \<Rightarrow> string \<Rightarrow> string" where
  "pad_zeros f m = (if length m \<le> f then replicate (f + 1 - length m) (CHR ''0'') @ m else m)"

definition insert_point :: "nat \<Rightarrow> string \<Rightarrow> string" where
  "insert_point f m =
     (if f = 0 then m else take (length m - f) m @ ''.'' @ drop (length m - f) m)"

definition fixed_digits :: "nat \<Rightarrow> rat \<Rightarrow> string" where
  "fixed_digits f x = insert_point f (pad_zeros f (dec_string (nat \<lfloor>x * 10 ^ f + 1 / 2\<rfloor>)))"

fun js_toFixed :: "nat \<Rightarrow> jsnum \<Rightarrow> jstext" where
  "js_toFixed f NaN = Text ''NaN''"
| "js_toFixed f PInf = Text ''Infinity''"
| "js_toFixed f NInf = Text ''-Infinity''"
| "js_toFixed f (Fin x) =
     (if 10 ^ 21 \<le> \<bar>x\<bar> then NumberToString (Fin x)
      else if x < 0 then Text (CHR ''-'' # fixed_digits f (- x))
      else Text (fixed_digits f x))"

subsection \<open>\<^verbatim>\<open>parseFloat\<close> and \<^verbatim>\<open>parseInt\<close>\<close>

text \<open>
  A string is the sequence of its UTF-8 bytes. The white space that the two parsers skip
  is that of \<^verbatim>\<open>StrWhiteSpaceChar\<close>: TAB, LF, VT, FF, CR, SP, U+00A0, U+1680, U+2000 to
  U+200A, U+2028, U+2029, U+202F, U+205F, U+3000 and U+FEFF, each as its bytes. A decimal
  literal denotes its exact rational value, which is rounded to a double.
\<close>

definition white_space :: "string list" where
  "white_space =
     [[CHR 0x09], [CHR 0x0A], [CHR 0x0B], [CHR 0x0C], [CHR 0x0D], [CHR 0x20],
      [CHR 0xC2, CHR 0xA0],
      [CHR 0xE1, CHR 0x9A, CHR 0x80],
      [CHR 0xE2, CHR 0x80, CHR 0x80], [CHR 0xE2, CHR 0x80, CHR 0x81],
      [CHR 0xE2, CHR 0x80, CHR 0x82], [CHR 0xE2, CHR 0x80, CHR 0x83],
      [CHR 0xE2, CHR 0x80, CHR 0x84], [CHR 0xE2, CHR 0x80, CHR 0x85],
      [CHR 0xE2, CHR 0x80, CHR 0x86], [CHR 0xE2, CHR 0x80, CHR 0x87],
      [CHR 0xE2, CHR 0x80, CHR 0x88], [CHR 0xE2, CHR 0x80, CHR 0x89],
      [CHR 0xE2, CHR 0x80, CHR 0x8A],
      [CHR 0xE2, CHR 0x80, CHR 0xA8], [CHR 0xE2, CHR 0x80, CHR 0xA9],
      [CHR 0xE2, CHR 0x80, CHR 0xAF],
      [CHR 0xE2, CHR 0x81, CHR 0x9F],
      [CHR 0xE3, CHR 0x80, CHR 0x80],
      [CHR 0xEF, CHR 0xBB, CHR 0xBF]]"

text \<open>The number of bytes of the white space character at the head, \<open>0\<close> for none.\<close>

definition ws_length :: "string \<Rightarrow> nat" where
  "ws_length s =
     (case filter (\<lambda>w. take (length w) s = w) white_space of
        [] \<Rightarrow> 0
      | w # _ \<Rightarrow> length w)"

function trim_start :: "string \<Rightarrow> string" where
  "trim_start s = (if ws_length s = 0 then s else trim_start (drop (ws_length s) s))"
  by pat_completeness auto
termination
proof (relation "measure length")
  show "wf (measure length)" by simp
next
  fix s :: string
  assume "ws_length s \<noteq> 0"
  moreover have "ws_length [] = 0"
    by (simp add: ws_length_def white_space_def)
  ultimately have "s \<noteq> []" by auto
  with \<open>ws_length s \<noteq> 0\<close> show "(drop (ws_length s) s, s) \<in> measure length"
    by simp
qed

definition digit_index :: "string \<Rightarrow> char \<Rightarrow> nat" where
  "digit_index ds c = length (takeWhile (\<lambda>d. d \<noteq> c) ds)"

definition radix_digit_val :: "char \<Rightarrow> nat" where
  "radix_digit_val c =
     (if c \<in> set ''0123456789abcdef'' then digit_index ''0123456789abcdef'' c
      else digit_index ''0123456789ABCDEF'' c)"

definition is_radix_digit :: "nat \<Rightarrow> char \<Rightarrow> bool" where
  "is_radix_digit R c = (radix_digit_val c < min R 16)"

definition radix_value :: "nat \<Rightarrow> string \<Rightarrow> nat" where
  "radix_value R z = foldl (\<lambda>a c. R * a + radix_digit_val c) 0 z"

definition is_digit :: "char \<Rightarrow> bool" where
  "is_digit c = is_radix_digit 10 c"

text \<open>
  The value of an \<^verbatim>\<open>ExponentPart\<close> at the head of the string, \<open>0\<close> when there is
  none (an \<^verbatim>\<open>e\<close> that no digit follows is not part of the literal).
\<close>

definition signed_integer :: "string \<Rightarrow> int" where
  "signed_integer s =
     (case s of
        [] \<Rightarrow> 0
      | c # r \<Rightarrow>
          if c = CHR ''-'' then - int (radix_value 10 (takeWhile is_digit r))
          else if c = CHR ''+'' then int (radix_value 10 (takeWhile is_digit r))
          else int (radix_value 10 (takeWhile is_digit s)))"

definition exponent_part :: "string \<Rightarrow> int" where
  "exponent_part s =
     (case s of
        [] \<Rightarrow> 0
      | c # r \<Rightarrow> if c = CHR ''e'' \<or> c = CHR ''E'' then signed_integer r else 0)"

text \<open>
  The longest prefix that is a \<^verbatim>\<open>StrUnsignedDecimalLiteral\<close>: \<^verbatim>\<open>Infinity\<close>, or
  digits with an optional fraction and exponent; NaN when there is no such prefix.
\<close>

definition decimal_value :: "string \<Rightarrow> string \<Rightarrow> string \<Rightarrow> jsnum" where
  "decimal_value ip fp rest =
     (if ip = [] \<and> fp = [] then NaN
      else round_double
             (of_nat (radix_value 10 (ip @ fp)) * pow10 (exponent_part rest - int (length fp))))"

definition fraction_part :: "string \<Rightarrow> string \<Rightarrow> jsnum" where
  "fraction_part ip r1 =
     (case r1 of
        [] \<Rightarrow> decimal_value ip [] []
      | c # r \<Rightarrow>
          if c = CHR ''.'' then decimal_value ip (takeWhile is_digit r) (dropWhile is_digit r)
          else decimal_value ip [] r1)"

definition str_unsigned_decimal :: "string \<Rightarrow> jsnum" where
  "str_unsigned_decimal s =
     (if take 8 s = ''Infinity'' then PInf
      else fraction_part (takeWhile is_digit s) (dropWhile is_digit s))"

definition str_decimal :: "string \<Rightarrow> jsnum" where
  "str_decimal t =
     (case t of
        [] \<Rightarrow> NaN
      | c # r \<Rightarrow>
          if c = CHR ''-'' then js_neg (str_unsigned_decimal r)
          else if c = CHR ''+'' then str_unsigned_decimal r
          else str_unsigned_decimal t)"

definition parseFloat :: "string \<Rightarrow> jsnum" where
  "parseFloat s = str_decimal (trim_start s)"

text \<open>\<^verbatim>\<open>parseInt(s)\<close> with no radix: base 10, or base 16 after \<^verbatim>\<open>0x\<close>.\<close>

definition int_digits :: "nat \<Rightarrow> string \<Rightarrow> jsnum" where
  "int_digits R t =
     (if takeWhile (is_radix_digit R) t = [] then NaN
      else round_double (of_nat (radix_value R (takeWhile (is_radix_digit R) t))))"

definition int_prefix :: "string \<Rightarrow> jsnum" where
  "int_prefix t =
     (if take 2 t = ''0x'' \<or> take 2 t = ''0X'' then int_digits 16 (drop 2 t)
      else int_digits 10 t)"

definition int_sign :: "string \<Rightarrow> jsnum" where
  "int_sign t =
     (case t of
        [] \<Rightarrow> NaN
      | c # r \<Rightarrow>
          if c = CHR ''-'' then js_neg (int_prefix r)
          else if c = CHR ''+'' then int_prefix r
          else int_prefix t)"

definition parseInt :: "string \<Rightarrow> jsnum" where
  "parseInt s = int_sign (trim_start s)"

text \<open>A property that a row lacks is \<^verbatim>\<open>undefined\<close>, which the parsers read as a string.\<close>

definition to_string :: "string option \<Rightarrow> string" where
  "to_string v = (case v of None \<Rightarrow> ''undefined'' | Some s \<Rightarrow> s)"

section \<open>The record store and the loader\<close>

text \<open>
  A row of the CSV parser is an object whose properties are strings; a column that the
  file lacks is an absent property.
\<close>

type_synonym row = "string \<Rightarrow> string option"

record sensor =
  timestamp :: string
  battery_voltage :: jsnum
  humidity :: jsnum
  motion :: jsnum
  temperature :: jsnum
  id_rec :: string

text \<open>\<^verbatim>\<open>a || b\<close> on values that are a string or \<^verbatim>\<open>undefined\<close>; the empty string is falsy.\<close>

definition opt_or :: "string option \<Rightarrow> string option \<Rightarrow> string option" where
  "opt_or a b = (case a of None \<Rightarrow> b | Some s \<Rightarrow> if s = [] then b else a)"

definition str_or :: "string option \<Rightarrow> string \<Rightarrow> string" where
  "str_or a d = (case a of None \<Rightarrow> d | Some s \<Rightarrow> if s = [] then d else s)"

text \<open>
  The object literal of the \<^verbatim>\<open>'data'\<close> callback. \<open>now\<close> is
  \<^verbatim>\<open>new Date().toISOString()\<close> and \<open>rid\<close> the random identifier, both inputs.
\<close>

definition processedRow :: "string \<Rightarrow> string \<Rightarrow> row \<Rightarrow> sensor" where
  "processedRow now rid row =
     \<lparr> timestamp =
         str_or (opt_or (opt_or (row ''time'') (row ''timestamp'')) (row ''date'')) now,
       battery_voltage =
         js_or (js_or (js_or (parseFloat (to_string (row ''battery_voltage'')))
                             (parseFloat (to_string (row ''battery''))))
                      (parseFloat (to_string (row ''voltage''))))
               (Fin 0),
       humidity =
         js_or (js_or (parseFloat (to_string (row ''humidity'')))
                      (parseFloat (to_string (row ''hum''))))
               (Fin 0),
       motion =
         js_or (js_or (parseInt (to_string (row ''motion'')))
                      (parseFloat (to_string (row ''motion''))))
               (Fin 0),
       temperature =
         js_or (js_or (parseFloat (to_string (row ''temperature'')))
                      (parseFloat (to_string (row ''temp''))))
               (Fin 0),
       id_rec = rid \<rparr>"

text \<open>The \<^verbatim>\<open>'data'\<close> callback: the row is pushed unless a value is NaN.\<close>

definition on_data :: "string \<Rightarrow> string \<Rightarrow> row \<Rightarrow> sensor list \<Rightarrow> sensor list" where
  "on_data now rid row sensorData =
     (if \<not> isNaN (temperature (processedRow now rid row))
         \<and> \<not> isNaN (humidity (processedRow now rid row))
      then sensorData @ [processedRow now rid row]
      else sensorData)"

section \<open>The replay cursor and the broadcast\<close>

text \<open>The exceptions that the code can raise.\<close>

datatype exn = TypeError | RangeError

record envelope =
  payload :: sensor
  realtime_timestamp :: string
  current_index :: nat
  total_records :: nat

datatype msg_type = initial_data | realtime_update

text \<open>The object that \<^verbatim>\<open>JSON.stringify\<close> serialises into one frame of the stream.\<close>

datatype message = Message msg_type envelope

text \<open>
  A response stream: the status of the head, once \<^verbatim>\<open>writeHead\<close> has set it (the header
  fields are constants of the code), the frames sent on it so far, and whether its
  connection is still there, which the peer and the transport decide.
\<close>

record channel =
  head :: "nat option"
  writable :: bool
  written :: "message list"

text \<open>
  A registered client. The registry is a \<^verbatim>\<open>Set\<close> of objects, which tells its members
  apart by identity and not by content: \<open>client_ref\<close> is the identity of the object,
  \<open>client_id\<close> is its \<^verbatim>\<open>id\<close> field, which two clients can share.
\<close>

record client =
  client_ref :: nat
  client_id :: nat
  res :: channel

definition writeHead :: "nat \<Rightarrow> channel \<Rightarrow> channel" where
  "writeHead code ch = ch\<lparr>head := Some code\<rparr>"

text \<open>
  \<^verbatim>\<open>res.write(chunk)\<close> with a string. On a stream whose connection is gone, the call
  sends nothing and returns; it does not raise. The boolean that it returns is not used by
  the code and is left out.
\<close>

definition res_write :: "channel \<Rightarrow> message \<Rightarrow> channel" where
  "res_write ch m = (if writable ch then ch\<lparr>written := written ch @ [m]\<rparr> else ch)"

text \<open>
  The module's variables. \<^verbatim>\<open>realtimeConnections\<close> is a \<^verbatim>\<open>Set\<close> of objects, which
  iterates in insertion order: a list.
\<close>

record server =
  sensorData :: "sensor list"
  allDataLoaded :: bool
  realtimeConnections :: "client list"
  currentDataIndex :: nat

text \<open>
  \<^verbatim>\<open>loadAllCSVData\<close>. When the file does not exist (\<open>None\<close>) the function returns
  and nothing changes. Otherwise the store is emptied, the \<^verbatim>\<open>'data'\<close> callback runs
  on every row of the file in order, each with the time and the random identifier drawn for
  it, and the \<^verbatim>\<open>'end'\<close> callback sets the flag.
\<close>

type_synonym row_event = "string \<times> string \<times> row"

definition on_data_event :: "sensor list \<Rightarrow> row_event \<Rightarrow> sensor list" where
  "on_data_event store ev = (case ev of (now, rid, row) \<Rightarrow> on_data now rid row store)"

definition loadAllCSVData :: "row_event list option \<Rightarrow> server \<Rightarrow> server" where
  "loadAllCSVData file s =
     (case file of
        None \<Rightarrow> s
      | Some rows \<Rightarrow> s\<lparr> sensorData := foldl on_data_event [] rows, allDataLoaded := True \<rparr>)"

text \<open>
  \<^verbatim>\<open>realtimeConnections.forEach(client => client.res.write(...))\<close>: the clients are
  written to in the order of their registration. The result is the registry after the
  writes.
\<close>

fun forEach_write :: "message \<Rightarrow> client list \<Rightarrow> client list" where
  "forEach_write m [] = []"
| "forEach_write m (c # cs) = c\<lparr>res := res_write (res c) m\<rparr> # forEach_write m cs"

definition broadcastRealtimeData :: "envelope \<Rightarrow> client list \<Rightarrow> client list" where
  "broadcastRealtimeData data conns = forEach_write (Message realtime_update data) conns"

text \<open>The cursor step of line 59.\<close>

definition advance :: "nat \<Rightarrow> nat \<Rightarrow> nat" where
  "advance n i = (i + 1) mod n"

text \<open>
  The callback that \<^verbatim>\<open>startRealtimeSimulation\<close> gives to \<^verbatim>\<open>setInterval\<close>, run once.
  \<open>now\<close> is \<^verbatim>\<open>new Date().toISOString()\<close>.
\<close>

definition realtimeData :: "string \<Rightarrow> server \<Rightarrow> nat \<Rightarrow> envelope" where
  "realtimeData now s i =
     \<lparr> payload = sensorData s ! i,
       realtime_timestamp = now,
       current_index = i,
       total_records = length (sensorData s) \<rparr>"

definition tick :: "string \<Rightarrow> server \<Rightarrow> server" where
  "tick now s =
     (if length (sensorData s) = 0 then s
      else
        s\<lparr> currentDataIndex := advance (length (sensorData s)) (currentDataIndex s),
           realtimeConnections :=
             broadcastRealtimeData
               (realtimeData now s (advance (length (sensorData s)) (currentDataIndex s)))
               (realtimeConnections s) \<rparr>)"

text \<open>A sequence of ticks, one timestamp each.\<close>

fun run_ticks :: "string list \<Rightarrow> server \<Rightarrow> server" where
  "run_ticks [] s = s"
| "run_ticks (now # nows) s = run_ticks nows (tick now s)"

text \<open>
  The handler of \<^verbatim>\<open>/api/realtime-stream\<close>. \<open>ch\<close> is the response of the request,
  \<open>ref\<close> the identity of the client object that the handler creates, which no object
  created before has, \<open>now_ms\<close> is \<^verbatim>\<open>Date.now()\<close> and \<open>now\<close> is
  \<^verbatim>\<open>new Date().toISOString()\<close>. The new client goes to the end of the registry, and
  its stream is sent the record under the cursor when there is one.
\<close>

definition initialData :: "string \<Rightarrow> server \<Rightarrow> message" where
  "initialData now s = Message initial_data (realtimeData now s (currentDataIndex s))"

definition realtime_stream_handler :: "nat \<Rightarrow> nat \<Rightarrow> string \<Rightarrow> channel \<Rightarrow> server \<Rightarrow> server" where
  "realtime_stream_handler ref now_ms now ch s =
     s\<lparr> realtimeConnections :=
          realtimeConnections s @
            [\<lparr> client_ref = ref, client_id = now_ms,
               res = (if 0 < length (sensorData s)
                      then res_write (writeHead 200 ch) (initialData now s)
                      else writeHead 200 ch) \<rparr>] \<rparr>"

text \<open>
  The \<^verbatim>\<open>'close'\<close> callback that the handler registers on the request: it deletes from
  the registry the client object that the handler created, and no other.
\<close>

definition on_close :: "nat \<Rightarrow> server \<Rightarrow> server" where
  "on_close ref s =
     s\<lparr> realtimeConnections := filter (\<lambda>c. client_ref c \<noteq> ref) (realtimeConnections s) \<rparr>"

section \<open>The statistics engine\<close>

text \<open>\<^verbatim>\<open>a.reduce(f, init)\<close>, and \<^verbatim>\<open>a.reduce(f)\<close>, which raises on an empty array.\<close>

definition reduce :: "('b \<Rightarrow> 'a \<Rightarrow> 'b) \<Rightarrow> 'b \<Rightarrow> 'a list \<Rightarrow> 'b" where
  "reduce f init xs = foldl f init xs"

definition reduce1 :: "('a \<Rightarrow> 'a \<Rightarrow> 'a) \<Rightarrow> 'a list \<Rightarrow> exn + 'a" where
  "reduce1 f xs = (case xs of [] \<Rightarrow> Inl TypeError | x # r \<Rightarrow> Inr (foldl f x r))"

text \<open>An array length as a number: lengths are below \<open>2^32\<close>, so the conversion is exact.\<close>

definition js_of_nat :: "nat \<Rightarrow> jsnum" where
  "js_of_nat n = Fin (of_nat n)"

definition avg :: "jsnum list \<Rightarrow> jsnum" where
  "avg xs = js_div (reduce js_add (Fin 0) xs) (js_of_nat (length xs))"

text \<open>
  The \<^verbatim>\<open>std\<close> expression of lines 126 and 132. The callback of the outer
  \<^verbatim>\<open>reduce\<close> computes the mean again for every element, with a \<^verbatim>\<open>reduce\<close> that has
  no initial value.
\<close>

definition sq_callback :: "jsnum list \<Rightarrow> jsnum \<Rightarrow> jsnum \<Rightarrow> exn + jsnum" where
  "sq_callback xs sq n =
     (case reduce1 js_add xs of
        Inl e \<Rightarrow> Inl e
      | Inr s \<Rightarrow> Inr (js_add sq (js_pow2 (js_sub n (js_div s (js_of_nat (length xs)))))))"

fun sq_reduce :: "jsnum list \<Rightarrow> jsnum \<Rightarrow> jsnum list \<Rightarrow> exn + jsnum" where
  "sq_reduce xs sq [] = Inr sq"
| "sq_reduce xs sq (n # ns) =
     (case sq_callback xs sq n of Inl e \<Rightarrow> Inl e | Inr sq' \<Rightarrow> sq_reduce xs sq' ns)"

definition std :: "jsnum list \<Rightarrow> exn + jsnum" where
  "std xs =
     (case sq_reduce xs (Fin 0) xs of
        Inl e \<Rightarrow> Inl e
      | Inr sq \<Rightarrow> Inr (js_sqrt (js_div sq (js_of_nat (length xs)))))"

text \<open>
  \<^verbatim>\<open>Math.min\<close> and \<^verbatim>\<open>Math.max\<close> of a list of arguments: NaN when an argument is NaN,
  and \<^verbatim>\<open>Infinity\<close> and \<^verbatim>\<open>-Infinity\<close> when there is none.
\<close>

definition min2 :: "jsnum \<Rightarrow> jsnum \<Rightarrow> jsnum" where
  "min2 a b = (if isNaN a \<or> isNaN b then NaN else if js_gt a b then b else a)"

definition max2 :: "jsnum \<Rightarrow> jsnum \<Rightarrow> jsnum" where
  "max2 a b = (if isNaN a \<or> isNaN b then NaN else if js_gt b a then b else a)"

definition Math_min :: "jsnum list \<Rightarrow> jsnum" where
  "Math_min args = foldl min2 PInf args"

definition Math_max :: "jsnum list \<Rightarrow> jsnum" where
  "Math_max args = foldl max2 NInf args"

text \<open>
  \<^verbatim>\<open>f(...xs)\<close>: every element of the array becomes an argument of one call. The
  arguments go on the stack, and the engine raises a \<^verbatim>\<open>RangeError\<close> when there are more
  of them than it has room for. \<open>max_args\<close>, the greatest number of arguments that the
  call can take, depends on the engine and on its stack size: an input.
\<close>

definition spread :: "nat \<Rightarrow> ('a list \<Rightarrow> 'b) \<Rightarrow> 'a list \<Rightarrow> exn + 'b" where
  "spread max_args f xs = (if max_args < length xs then Inl RangeError else Inr (f xs))"

text \<open>One step after another: an exception of the first leaves out the second.\<close>

definition and_then :: "exn + 'a \<Rightarrow> ('a \<Rightarrow> exn + 'b) \<Rightarrow> exn + 'b" where
  "and_then r f = (case r of Inl e \<Rightarrow> Inl e | Inr v \<Rightarrow> f v)"

fun longest_loop :: "jsnum list \<Rightarrow> nat \<Rightarrow> nat \<Rightarrow> nat" where
  "longest_loop [] maxLength currentLength = maxLength"
| "longest_loop (m # rest) maxLength currentLength =
     (if js_gt m (Fin 0)
      then longest_loop rest (max maxLength (currentLength + 1)) (currentLength + 1)
      else longest_loop rest maxLength 0)"

definition findLongestActivation :: "jsnum list \<Rightarrow> nat" where
  "findLongestActivation motionData = longest_loop motionData 0 0"

text \<open>\<^verbatim>\<open>y[i]\<close>: \<^verbatim>\<open>undefined\<close> beyond the end, which arithmetic turns into NaN.\<close>

definition at_index :: "jsnum list \<Rightarrow> nat \<Rightarrow> jsnum" where
  "at_index y i = (if i < length y then y ! i else NaN)"

fun sum_xy_from :: "nat \<Rightarrow> jsnum list \<Rightarrow> jsnum \<Rightarrow> jsnum list \<Rightarrow> jsnum" where
  "sum_xy_from i y acc [] = acc"
| "sum_xy_from i y acc (v # vs) = sum_xy_from (i + 1) y (js_add acc (js_mul v (at_index y i))) vs"

datatype jsval = JNum jsnum | JText jstext

definition correlation_result :: "jsnum \<Rightarrow> jsnum \<Rightarrow> jsval" where
  "correlation_result numerator denominator =
     (if js_strict_eq denominator (Fin 0) then JNum (Fin 0)
      else JText (js_toFixed 3 (js_div numerator denominator)))"

definition variance_term :: "nat \<Rightarrow> jsnum \<Rightarrow> jsnum \<Rightarrow> jsnum" where
  "variance_term n sum_x2 sum_x = js_sub (js_mul (js_of_nat n) sum_x2) (js_mul sum_x sum_x)"

definition correlation_of_sums ::
  "nat \<Rightarrow> jsnum \<Rightarrow> jsnum \<Rightarrow> jsnum \<Rightarrow> jsnum \<Rightarrow> jsnum \<Rightarrow> jsval" where
  "correlation_of_sums n sum_x sum_y sum_xy sum_x2 sum_y2 =
     correlation_result
       (js_sub (js_mul (js_of_nat n) sum_xy) (js_mul sum_x sum_y))
       (js_sqrt (js_mul (variance_term n sum_x2 sum_x) (variance_term n sum_y2 sum_y)))"

definition calculateCorrelation :: "jsnum list \<Rightarrow> jsnum list \<Rightarrow> jsval" where
  "calculateCorrelation x y =
     correlation_of_sums (length x)
       (reduce js_add (Fin 0) x)
       (reduce js_add (Fin 0) y)
       (sum_xy_from 0 y (Fin 0) x)
       (reduce (\<lambda>sum val. js_add sum (js_mul val val)) (Fin 0) x)
       (reduce (\<lambda>sum val. js_add sum (js_mul val val)) (Fin 0) y)"

section \<open>The request handlers\<close>

text \<open>The statistics object.\<close>

record stats =
  stats_total_records :: nat
  data_range_start :: string
  data_range_end :: string
  temperature_min :: jsnum
  temperature_max :: jsnum
  temperature_avg :: jsnum
  temperature_std :: jsnum
  humidity_min :: jsnum
  humidity_max :: jsnum
  humidity_avg :: jsnum
  humidity_std :: jsnum
  battery_min :: jsnum
  battery_max :: jsnum
  battery_avg :: jsnum
  battery_trend :: jsnum
  total_detections :: nat
  detection_rate :: jstext
  longest_activation :: nat
  temp_humidity :: jsval
  temp_battery :: jsval

datatype body =
  ErrorBody string
| RecordsBody "sensor list"
| EnvelopeBody envelope
| StatsBody stats

record response =
  status :: nat
  body :: body

text \<open>\<^verbatim>\<open>res.json(b)\<close> answers with status 200 unless \<^verbatim>\<open>res.status\<close> was called.\<close>

definition json :: "body \<Rightarrow> response" where
  "json b = \<lparr> status = 200, body = b \<rparr>"

definition status_json :: "nat \<Rightarrow> body \<Rightarrow> response" where
  "status_json code b = \<lparr> status = code, body = b \<rparr>"

definition all_data_handler :: "server \<Rightarrow> response" where
  "all_data_handler s =
     (if length (sensorData s) = 0 then status_json 404 (ErrorBody ''No data available'')
      else json (RecordsBody (sensorData s)))"

definition current_data_handler :: "string \<Rightarrow> server \<Rightarrow> response" where
  "current_data_handler now s =
     (if length (sensorData s) = 0 then status_json 404 (ErrorBody ''No data available'')
      else json (EnvelopeBody (realtimeData now s (currentDataIndex s))))"

definition motion_stats :: "jsnum list \<Rightarrow> nat \<times> jstext \<times> nat" where
  "motion_stats motionData =
     (length (filter (\<lambda>val. js_gt val (Fin 0)) motionData),
      js_toFixed 1
        (js_mul (js_div (js_of_nat (length (filter (\<lambda>val. js_gt val (Fin 0)) motionData)))
                        (js_of_nat (length motionData)))
                (Fin 100)),
      findLongestActivation motionData)"

text \<open>
  The values of the statistics object whose computation can raise: the six spread calls
  and the two \<^verbatim>\<open>std\<close> expressions.
\<close>

record raising_stats =
  temp_min :: jsnum
  temp_max :: jsnum
  temp_std :: jsnum
  hum_min :: jsnum
  hum_max :: jsnum
  hum_std :: jsnum
  bat_min :: jsnum
  bat_max :: jsnum

definition build_stats :: "sensor list \<Rightarrow> raising_stats \<Rightarrow> stats" where
  "build_stats sd v =
     \<lparr> stats_total_records = length sd,
       data_range_start = timestamp (sd ! 0),
       data_range_end = timestamp (sd ! (length sd - 1)),
       temperature_min = temp_min v,
       temperature_max = temp_max v,
       temperature_avg = avg (map temperature sd),
       temperature_std = temp_std v,
       humidity_min = hum_min v,
       humidity_max = hum_max v,
       humidity_avg = avg (map humidity sd),
       humidity_std = hum_std v,
       battery_min = bat_min v,
       battery_max = bat_max v,
       battery_avg = avg (map battery_voltage sd),
       battery_trend =
         js_sub (map battery_voltage sd ! (length sd - 1)) (map battery_voltage sd ! 0),
       total_detections = fst (motion_stats (map motion sd)),
       detection_rate = fst (snd (motion_stats (map motion sd))),
       longest_activation = snd (snd (motion_stats (map motion sd))),
       temp_humidity = calculateCorrelation (map temperature sd) (map humidity sd),
       temp_battery = calculateCorrelation (map temperature sd) (map battery_voltage sd) \<rparr>"

text \<open>
  The expressions that can raise, in the order in which the object literal evaluates
  them: the first exception ends the evaluation.
\<close>

definition raising_values :: "nat \<Rightarrow> sensor list \<Rightarrow> exn + raising_stats" where
  "raising_values max_args sd =
     and_then (spread max_args Math_min (map temperature sd)) (\<lambda>tmin.
     and_then (spread max_args Math_max (map temperature sd)) (\<lambda>tmax.
     and_then (std (map temperature sd)) (\<lambda>tstd.
     and_then (spread max_args Math_min (map humidity sd)) (\<lambda>hmin.
     and_then (spread max_args Math_max (map humidity sd)) (\<lambda>hmax.
     and_then (std (map humidity sd)) (\<lambda>hstd.
     and_then (spread max_args Math_min (map battery_voltage sd)) (\<lambda>bmin.
     and_then (spread max_args Math_max (map battery_voltage sd)) (\<lambda>bmax.
       Inr \<lparr> temp_min = tmin, temp_max = tmax, temp_std = tstd,
             hum_min = hmin, hum_max = hmax, hum_std = hstd,
             bat_min = bmin, bat_max = bmax \<rparr>))))))))"

text \<open>
  The handler of \<^verbatim>\<open>/api/statistics\<close>. An exception leaves the handler, and the
  framework answers the request with status 500.
\<close>

definition statistics_handler :: "nat \<Rightarrow> server \<Rightarrow> exn + response" where
  "statistics_handler max_args s =
     (if length (sensorData s) = 0 then Inr (json (ErrorBody ''No data available''))
      else
        and_then (raising_values max_args (sensorData s))
          (\<lambda>v. Inr (json (StatsBody (build_stats (sensorData s) v)))))"

text \<open>
  \<^verbatim>\<open>a.slice(start)\<close>: the start is truncated to an integer, a negative one counts
  from the end, and the result is clamped to the array.
\<close>

datatype extint = MinusInfinity | Finite int | PlusInfinity

fun ToIntegerOrInfinity :: "jsnum \<Rightarrow> extint" where
  "ToIntegerOrInfinity NaN = Finite 0"
| "ToIntegerOrInfinity PInf = PlusInfinity"
| "ToIntegerOrInfinity NInf = MinusInfinity"
| "ToIntegerOrInfinity (Fin r) = Finite (if r < 0 then - \<lfloor>- r\<rfloor> else \<lfloor>r\<rfloor>)"

fun slice_start :: "extint \<Rightarrow> nat \<Rightarrow> nat" where
  "slice_start MinusInfinity len = 0"
| "slice_start PlusInfinity len = len"
| "slice_start (Finite z) len =
     (if z < 0 then nat (max (int len + z) 0) else min (nat z) len)"

definition slice :: "jsnum \<Rightarrow> 'a list \<Rightarrow> 'a list" where
  "slice start xs = drop (slice_start (ToIntegerOrInfinity start) (length xs)) xs"

definition recent_data_handler :: "string \<Rightarrow> server \<Rightarrow> response" where
  "recent_data_handler limit_param s =
     json (RecordsBody (slice (js_neg (js_or (parseInt limit_param) (Fin 50))) (sensorData s)))"

section \<open>What the specification says\<close>

text \<open>
  The longest activation in the specification's words: the greatest length of a run of
  consecutive entries, in stored order, that are all positive.
\<close>

definition active_run :: "jsnum list \<Rightarrow> jsnum list \<Rightarrow> bool" where
  "active_run xs ys = (sublist ys xs \<and> (\<forall>y \<in> set ys. js_gt y (Fin 0)))"

definition spec_longest_activation :: "jsnum list \<Rightarrow> nat" where
  "spec_longest_activation xs = Max (length ` {ys. active_run xs ys})"

text \<open>
  The population standard deviation in the specification's words: the mean of the series
  is computed once, the squared deviations from it are summed and divided by \<open>n\<close>, and
  the square root is taken. The arithmetic is that of doubles.
\<close>

definition spec_population_std :: "jsnum list \<Rightarrow> jsnum" where
  "spec_population_std xs =
     js_sqrt
       (js_div (foldl (\<lambda>sq x. js_add sq (js_pow2 (js_sub x (avg xs)))) (Fin 0) xs)
               (js_of_nat (length xs)))"

text \<open>
  The Pearson formula in the specification's words, \<open>\<Sigma>\<close> being the sum of a series from
  left to right in double arithmetic.
\<close>

definition series_sum :: "jsnum list \<Rightarrow> jsnum" where
  "series_sum xs = foldl js_add (Fin 0) xs"

definition spec_numerator :: "jsnum list \<Rightarrow> jsnum list \<Rightarrow> jsnum" where
  "spec_numerator x y =
     js_sub (js_mul (js_of_nat (length x)) (series_sum (map2 js_mul x y)))
            (js_mul (series_sum x) (series_sum y))"

definition spec_variance_term :: "jsnum list \<Rightarrow> jsnum" where
  "spec_variance_term x =
     js_sub (js_mul (js_of_nat (length x)) (series_sum (map2 js_mul x x)))
            (js_mul (series_sum x) (series_sum x))"

definition spec_denominator :: "jsnum list \<Rightarrow> jsnum list \<Rightarrow> jsnum" where
  "spec_denominator x y = js_sqrt (js_mul (spec_variance_term x) (spec_variance_term y))"

definition spec_correlation :: "jsnum list \<Rightarrow> jsnum list \<Rightarrow> jsval" where
  "spec_correlation x y =
     (if spec_denominator x y = Fin 0 then JNum (Fin 0)
      else JText (js_toFixed 3 (js_div (spec_numerator x y) (spec_denominator x y))))"

text \<open>
  The loader's choice in the specification's words: the value of the first alias, in
  priority order, that the row has and that parses to a number; \<open>0\<close> when there is none.
\<close>

definition usable_alias :: "row \<Rightarrow> string \<Rightarrow> bool" where
  "usable_alias row a = (row a \<noteq> None \<and> \<not> isNaN (parseFloat (to_string (row a))))"

definition spec_measurement :: "row \<Rightarrow> string list \<Rightarrow> jsnum" where
  "spec_measurement row aliases =
     (case filter (usable_alias row) aliases of
        [] \<Rightarrow> Fin 0
      | a # _ \<Rightarrow> parseFloat (to_string (row a)))"

text \<open>What the chain of \<^verbatim>\<open>||\<close> computes: the first value that is truthy, else \<open>0\<close>.\<close>

definition first_truthy :: "jsnum list \<Rightarrow> jsnum" where
  "first_truthy vs = (case filter truthy vs of [] \<Rightarrow> Fin 0 | v # _ \<Rightarrow> v)"

definition first_nonempty :: "string option list \<Rightarrow> string \<Rightarrow> string" where
  "first_nonempty vs d =
     (case filter (\<lambda>v. v \<noteq> None \<and> v \<noteq> Some []) vs of [] \<Rightarrow> d | v # _ \<Rightarrow> to_string v)"

text \<open>An entry that counts as active: \<^verbatim>\<open>motion > 0\<close>.\<close>

definition positive :: "jsnum \<Rightarrow> bool" where
  "positive x = js_gt x (Fin 0)"

text \<open>The last \<open>k\<close> records of the store, in stored order.\<close>

definition last_records :: "nat \<Rightarrow> 'a list \<Rightarrow> 'a list" where
  "last_records k xs = drop (length xs - k) xs"

text \<open>The statistics object of a response, when it carries one.\<close>

definition reported_stats :: "exn + response \<Rightarrow> stats option" where
  "reported_stats x =
     (case x of
        Inl e \<Rightarrow> None
      | Inr r \<Rightarrow> (case body r of StatsBody st \<Rightarrow> Some st | _ \<Rightarrow> None))"

text \<open>The response that reports an empty store.\<close>

definition is_no_data :: "response \<Rightarrow> bool" where
  "is_no_data r = (body r = ErrorBody ''No data available'')"

text \<open>What one delivered frame does to a client.\<close>

definition deliver :: "message \<Rightarrow> client \<Rightarrow> client" where
  "deliver m c = c\<lparr>res := (res c)\<lparr>written := written (res c) @ [m]\<rparr>\<rparr>"

section \<open>Concrete inputs\<close>

definition record_a :: sensor where
  "record_a =
     \<lparr> timestamp = ''2024-05-01T10:00:00Z'', battery_voltage = Fin 3, humidity = Fin 40,
       motion = Fin 0, temperature = Fin 21, id_rec = ''k3j9x0q1z'' \<rparr>"

definition record_b :: sensor where
  "record_b =
     \<lparr> timestamp = ''2024-05-01T10:00:02Z'', battery_voltage = Fin 3, humidity = Fin 41,
       motion = Fin 1, temperature = Fin 22, id_rec = ''p8w2m5c7v'' \<rparr>"

definition record_c :: sensor where
  "record_c =
     \<lparr> timestamp = ''2024-05-01T10:00:04Z'', battery_voltage = Fin 3, humidity = Fin 42,
       motion = Fin 1, temperature = Fin 23, id_rec = ''t6y4b1n8d'' \<rparr>"

text \<open>A row whose first temperature alias reads zero and whose second does not.\<close>

definition zero_first_row :: row where
  "zero_first_row = map_of [(''temperature'', ''0''), (''temp'', ''5''), (''humidity'', ''40'')]"

text \<open>Three readings of 0.1 degrees, as the loader stores them.\<close>

definition tenth_record :: "string \<Rightarrow> sensor" where
  "tenth_record rid =
     processedRow ''2024-05-01T10:00:00Z'' rid
       (map_of [(''temperature'', ''0.1''), (''humidity'', ''40'')])"

definition tenth_server :: server where
  "tenth_server =
     \<lparr> sensorData = [tenth_record ''k3j9x0q1z'', tenth_record ''p8w2m5c7v'',
                     tenth_record ''t6y4b1n8d''],
       allDataLoaded = True, realtimeConnections = [], currentDataIndex = 0 \<rparr>"

text \<open>Two registered clients: one whose connection is there, one whose connection is gone.\<close>

definition open_client :: client where
  "open_client =
     \<lparr> client_ref = 0, client_id = 1714557600000,
       res = \<lparr> head = Some 200, writable = True, written = [] \<rparr> \<rparr>"



definition sample_server :: server where
  "sample_server =
     \<lparr> sensorData = [record_a, record_b, record_c], allDataLoaded = True,
       realtimeConnections = [open_client], currentDataIndex = 2 \<rparr>"

definition empty_server :: server where
  "empty_server =
     \<lparr> sensorData = [], allDataLoaded = False, realtimeConnections = [open_client],
       currentDataIndex = 0 \<rparr>"


text \<open>A store of 130000 records, and an engine whose calls take up to 120000 arguments.\<close>

definition large_server :: server where
  "large_server =
     \<lparr> sensorData = replicate 130000 record_a, allDataLoaded = True,
       realtimeConnections = [], currentDataIndex = 0 \<rparr>"

definition sample_max_args :: nat where
  "sample_max_args = 120000"

section \<open>Evaluating the model on concrete inputs\<close>

text \<open>
  The equations that the simplifier needs to compute with the numbers, the parsers and
  \<^verbatim>\<open>toFixed\<close> on literals.
\<close>

named_theorems js_eval

declare isqrt.simps [simp del]

declare dec_string.simps [simp del]

declare trim_start.simps [simp del]

lemma floor_rat_numeral_div [js_eval]:
  "\<lfloor>numeral a / numeral b :: rat\<rfloor> = numeral a div numeral b"
  using floor_divide_of_int_eq [of "numeral a" "numeral b", where ?'a = rat] by simp

lemma floor_rat_one_div [js_eval]: "\<lfloor>1 / numeral b :: rat\<rfloor> = 1 div numeral b"
  using floor_divide_of_int_eq [of 1 "numeral b", where ?'a = rat] by simp

lemma ceiling_rat_numeral_div [js_eval]:
  "\<lceil>numeral a / numeral b :: rat\<rceil> = - (- numeral a div numeral b)"
  using floor_divide_of_int_eq [of "- numeral a" "numeral b", where ?'a = rat]
  by (simp add: ceiling_def)

lemma replicate_numeral_eval [js_eval]:
  "replicate (numeral v) x = x # replicate (numeral v - 1) x"
  by (simp add: numeral_eq_Suc)

lemmas [js_eval] = pow2_def pow10_def floor_log2_def round_half_even_from_def
  round_half_even_def quantum_def round_to_quantum_def finite_or_inf_def round_double_def
  isqrt_step_def isqrt.simps sqrt_inexact_def sqrt_scaled_def sqrt_shift_def sqrt_double_def
  compute_bitlen js_sub_def signed_inf_def js_strict_eq_def isNaN_def truthy_def js_or_def
  js_pow2_def digit_char_def dec_string.simps pad_zeros_def insert_point_def fixed_digits_def
  white_space_def ws_length_def trim_start.simps digit_index_def radix_digit_val_def
  is_radix_digit_def
  radix_value_def is_digit_def signed_integer_def exponent_part_def decimal_value_def
  fraction_part_def str_unsigned_decimal_def str_decimal_def parseFloat_def int_digits_def
  int_prefix_def int_sign_def parseInt_def to_string_def std_def sq_callback_def reduce1_def
  reduce_def js_of_nat_def avg_def at_index_def correlation_result_def variance_term_def
  correlation_of_sums_def calculateCorrelation_def min2_def max2_def Math_min_def
  Math_max_def

text \<open>
  The parsers skip white space beyond ASCII: U+00A0, TAB and U+FEFF before \<^verbatim>\<open>21\<close>,
  U+2028 and a space before \<^verbatim>\<open>7\<close>. U+200B is not white space.
\<close>

lemma white_space_is_skipped:
  "parseFloat [CHR 0xC2, CHR 0xA0, CHR 0x09, CHR 0xEF, CHR 0xBB, CHR 0xBF, CHR ''2'', CHR ''1'']
     = Fin 21"
  "parseInt [CHR 0xE2, CHR 0x80, CHR 0xA8, CHR '' '', CHR ''7''] = Fin 7"
  "parseInt [CHR 0xE2, CHR 0x80, CHR 0x8B, CHR ''7''] = NaN"
  by (simp_all add: js_eval)

text \<open>The least and the greatest of the three temperatures of the sample store.\<close>

lemma min_max_of_sample:
  "Math_min (map temperature [record_a, record_b, record_c]) = Fin 21"
  "Math_max (map temperature [record_a, record_b, record_c]) = Fin 23"
  "Math_min [] = PInf"
  "Math_max [Fin 1, NaN] = NaN"
  by (simp_all add: record_a_def record_b_def record_c_def js_eval)

section \<open>The replay cursor\<close>

lemma advance_funpow:
  assumes "0 < n" and "i < n"
  shows "(advance n ^^ k) i = (i + k) mod n"
proof (induction k)
  case 0
  from assms(2) show ?case by simp
next
  case (Suc k)
  have "(advance n ^^ Suc k) i = advance n ((advance n ^^ k) i)" by simp
  also have "\<dots> = ((i + k) mod n + 1) mod n" by (simp only: Suc.IH advance_def)
  also have "\<dots> = (i + Suc k) mod n" by (simp add: mod_Suc_eq)
  finally show ?case .
qed

lemma tick_sensorData: "sensorData (tick now s) = sensorData s"
  by (simp add: tick_def)

lemma tick_index:
  "currentDataIndex (tick now s) =
     (if sensorData s = [] then currentDataIndex s
      else advance (length (sensorData s)) (currentDataIndex s))"
  by (simp add: tick_def)

lemma run_ticks_cursor:
  "sensorData s \<noteq> [] \<Longrightarrow>
   sensorData (run_ticks nows s) = sensorData s \<and>
   currentDataIndex (run_ticks nows s) =
     (advance (length (sensorData s)) ^^ length nows) (currentDataIndex s)"
proof (induction nows arbitrary: s)
  case Nil
  then show ?case by simp
next
  case (Cons now nows)
  have ne: "sensorData (tick now s) \<noteq> []"
    using Cons.prems by (simp add: tick_sensorData)
  from Cons.IH [OF ne] Cons.prems show ?case
    by (simp add: tick_sensorData tick_index funpow_swap1)
qed

text \<open>
  Claim C1. In a non-empty store of size \<open>n\<close>, from a cursor \<open>i < n\<close>: one advance gives
  \<open>(i + 1) mod n\<close>, and that is what a tick stores; \<open>k\<close> advances give \<open>(i + k) mod n\<close>;
  \<open>n\<close> advances give back the index \<open>i\<close> and so the same record; and every run of ticks
  leaves the store as it was and the cursor at \<open>(i + k) mod n\<close>, \<open>k\<close> being the number of
  ticks.
\<close>

theorem replay_cursor_cycles:
  assumes "sensorData s \<noteq> []" and "currentDataIndex s < length (sensorData s)"
  shows "advance (length (sensorData s)) (currentDataIndex s)
           = (currentDataIndex s + 1) mod length (sensorData s)
       \<and> currentDataIndex (tick now s)
           = (currentDataIndex s + 1) mod length (sensorData s)
       \<and> (advance (length (sensorData s)) ^^ k) (currentDataIndex s)
           = (currentDataIndex s + k) mod length (sensorData s)
       \<and> (advance (length (sensorData s)) ^^ length (sensorData s)) (currentDataIndex s)
           = currentDataIndex s
       \<and> sensorData s ! ((advance (length (sensorData s)) ^^ length (sensorData s))
                            (currentDataIndex s))
           = sensorData s ! currentDataIndex s
       \<and> sensorData (run_ticks nows s) = sensorData s
       \<and> currentDataIndex (run_ticks nows s)
           = (currentDataIndex s + length nows) mod length (sensorData s)"
proof -
  let ?n = "length (sensorData s)"
  have n: "0 < ?n" using assms(1) by simp
  have pow: "(advance ?n ^^ j) (currentDataIndex s) = (currentDataIndex s + j) mod ?n" for j
    by (rule advance_funpow [OF n assms(2)])
  have full: "(advance ?n ^^ ?n) (currentDataIndex s) = currentDataIndex s"
    using assms(2) by (simp add: pow)
  have one: "advance ?n (currentDataIndex s) = (currentDataIndex s + 1) mod ?n"
    by (simp add: advance_def)
  have tk: "currentDataIndex (tick now s) = (currentDataIndex s + 1) mod ?n"
    using assms(1) by (simp add: tick_index one)
  have run: "sensorData (run_ticks nows s) = sensorData s \<and>
            currentDataIndex (run_ticks nows s) = (currentDataIndex s + length nows) mod ?n"
    using run_ticks_cursor [of s nows] assms(1) by (simp add: pow)
  show ?thesis
    using one tk pow [of k] full run by simp
qed

theorem replay_cursor_cycles_witness:
  "sensorData sample_server \<noteq> []
   \<and> currentDataIndex sample_server < length (sensorData sample_server)
   \<and> currentDataIndex (tick ''t1'' sample_server) = 0
   \<and> (advance 3 ^^ 5) 2 = 1
   \<and> (advance 3 ^^ 3) 2 = 2
   \<and> currentDataIndex (run_ticks [''t1'', ''t2''] sample_server) = 1"
proof -
  have h1: "sensorData sample_server \<noteq> []"
    by (simp add: sample_server_def)
  have h2: "currentDataIndex sample_server < length (sensorData sample_server)"
    by (simp add: sample_server_def)
  have len: "length (sensorData sample_server) = 3"
    by (simp add: sample_server_def)
  have idx: "currentDataIndex sample_server = 2"
    by (simp add: sample_server_def)
  from replay_cursor_cycles [OF h1 h2, of "''t1''" 5 "[''t1'', ''t2'']"]
  have "currentDataIndex (tick ''t1'' sample_server) = (2 + 1) mod 3
      \<and> (advance 3 ^^ 5) 2 = (2 + 5) mod 3
      \<and> (advance 3 ^^ 3) 2 = 2
      \<and> currentDataIndex (run_ticks [''t1'', ''t2''] sample_server)
          = (2 + length [''t1'', ''t2'']) mod 3"
    unfolding len idx by blast
  with h1 h2 show ?thesis
    by simp
qed

section \<open>The scheduler tick and the broadcast\<close>

lemma forEach_write_map:
  "forEach_write m cs = map (\<lambda>c. c\<lparr>res := res_write (res c) m\<rparr>) cs"
  by (induction cs) simp_all

lemma write_open: "writable (res c) \<Longrightarrow> c\<lparr>res := res_write (res c) m\<rparr> = deliver m c"
  by (simp add: res_write_def deliver_def)


lemma forEach_write_all_writable:
  "\<forall>c \<in> set cs. writable (res c) \<Longrightarrow> forEach_write m cs = map (deliver m) cs"
  by (induction cs) (simp_all add: write_open)


lemma forEach_write_refs: "map client_ref (forEach_write m cs) = map client_ref cs"
  by (induction cs) simp_all

lemma forEach_write_length: "length (forEach_write m cs) = length cs"
  by (simp add: forEach_write_map)



text \<open>
  The identities in the registry stay distinct: a tick keeps them, a new client brings an
  identity that no registered client has, and a close notification deletes one.
\<close>

lemma registry_refs_distinct:
  assumes "distinct (map client_ref (realtimeConnections s))"
  shows "distinct (map client_ref (realtimeConnections (tick now s)))"
    and "r \<notin> client_ref ` set (realtimeConnections s) \<Longrightarrow>
         distinct (map client_ref
           (realtimeConnections (realtime_stream_handler r now_ms now ch s)))"
    and "distinct (map client_ref (realtimeConnections (on_close r s)))"
  using assms
  by (simp_all add: tick_def broadcastRealtimeData_def forEach_write_refs
      realtime_stream_handler_def on_close_def distinct_map_filter)

text \<open>
  A client that connects and then disconnects leaves the registry as it was before, and
  a client that connects to a non-empty store is sent the record under the cursor.
\<close>

lemma stream_client_lifecycle:
  assumes "r \<notin> client_ref ` set (realtimeConnections s)"
  shows "realtimeConnections (on_close r (realtime_stream_handler r now_ms now ch s))
           = realtimeConnections s"
proof -
  from assms
  have "filter (\<lambda>c. client_ref c \<noteq> r) (realtimeConnections s) = realtimeConnections s"
    by (intro filter_True) auto
  then show ?thesis
    by (simp add: on_close_def realtime_stream_handler_def)
qed

lemma stream_handler_sends_initial_data:
  "realtimeConnections (realtime_stream_handler 2 1714557600002 ''t0''
      \<lparr> head = None, writable = True, written = [] \<rparr> sample_server)
   = [open_client,
      \<lparr> client_ref = 2, client_id = 1714557600002,
        res = \<lparr> head = Some 200, writable = True,
                written = [Message initial_data
                   \<lparr> payload = record_c, realtime_timestamp = ''t0'', current_index = 2,
                     total_records = 3 \<rparr>] \<rparr> \<rparr>]"
  by (simp add: realtime_stream_handler_def sample_server_def writeHead_def res_write_def
      initialData_def realtimeData_def)

text \<open>
  Claim C5. A tick on an empty store changes nothing and writes nothing. A tick on a
  non-empty store advances the cursor once, leaves the store alone, and hands to
  \<^verbatim>\<open>broadcastRealtimeData\<close> the envelope made of the record now under the cursor, the
  timestamp, the new index and the number of records; when every client's stream takes
  the write, each client receives that envelope as one \<^verbatim>\<open>realtime_update\<close> frame.
\<close>

theorem scheduler_tick:
  "(sensorData s = [] \<longrightarrow> tick now s = s)
   \<and> (sensorData s \<noteq> [] \<longrightarrow>
        currentDataIndex (tick now s)
          = (currentDataIndex s + 1) mod length (sensorData s)
      \<and> sensorData (tick now s) = sensorData s
      \<and> realtimeConnections (tick now s)
          = broadcastRealtimeData
              \<lparr> payload = sensorData s ! currentDataIndex (tick now s),
                realtime_timestamp = now,
                current_index = currentDataIndex (tick now s),
                total_records = length (sensorData s) \<rparr>
              (realtimeConnections s)
      \<and> ((\<forall>c \<in> set (realtimeConnections s). writable (res c)) \<longrightarrow>
            realtimeConnections (tick now s)
              = map (deliver
                       (Message realtime_update
                          \<lparr> payload = sensorData s ! currentDataIndex (tick now s),
                            realtime_timestamp = now,
                            current_index = currentDataIndex (tick now s),
                            total_records = length (sensorData s) \<rparr>))
                    (realtimeConnections s)))"
proof -
  have empty: "sensorData s = [] \<longrightarrow> tick now s = s"
    by (simp add: tick_def)
  have rest: "sensorData s \<noteq> [] \<Longrightarrow> ?thesis"
  proof -
    assume ne: "sensorData s \<noteq> []"
    let ?i = "advance (length (sensorData s)) (currentDataIndex s)"
    have idx: "currentDataIndex (tick now s) = ?i"
      using ne by (simp add: tick_def)
    have env: "realtimeData now s ?i =
        \<lparr> payload = sensorData s ! ?i, realtime_timestamp = now, current_index = ?i,
          total_records = length (sensorData s) \<rparr>"
      by (simp add: realtimeData_def)
    have b: "realtimeConnections (tick now s)
          = broadcastRealtimeData (realtimeData now s ?i) (realtimeConnections s)"
      using ne by (simp add: tick_def)
    have w: "(\<forall>c \<in> set (realtimeConnections s). writable (res c)) \<longrightarrow>
          broadcastRealtimeData (realtimeData now s ?i) (realtimeConnections s)
            = map (deliver (Message realtime_update (realtimeData now s ?i)))
                  (realtimeConnections s)"
      by (simp add: broadcastRealtimeData_def forEach_write_all_writable)
    have sd: "sensorData (tick now s) = sensorData s"
      by (simp add: tick_def)
    have adv: "?i = (currentDataIndex s + 1) mod length (sensorData s)"
      by (simp add: advance_def)
    from b w show ?thesis
      unfolding idx env [symmetric]
      using ne sd adv by metis
  qed
  with empty show ?thesis by blast
qed

theorem scheduler_tick_witness:
  "sensorData empty_server = []
   \<and> tick ''t1'' empty_server = empty_server
   \<and> sensorData sample_server \<noteq> []
   \<and> realtimeConnections sample_server = [open_client]
   \<and> writable (res open_client)
   \<and> currentDataIndex (tick ''t1'' sample_server) = 0
   \<and> realtimeConnections (tick ''t1'' sample_server)
       = [deliver (Message realtime_update
                    \<lparr> payload = record_a, realtime_timestamp = ''t1'', current_index = 0,
                      total_records = 3 \<rparr>)
                  open_client]"
proof -
  have e: "sensorData empty_server = []"
    by (simp add: empty_server_def)
  have n: "sensorData sample_server \<noteq> []"
    by (simp add: sample_server_def)
  have w: "\<forall>c \<in> set (realtimeConnections sample_server). writable (res c)"
    by (simp add: sample_server_def open_client_def)
  from scheduler_tick [of empty_server "''t1''"] e
  have t0: "tick ''t1'' empty_server = empty_server"
    by blast
  from scheduler_tick [of sample_server "''t1''"] n
  have i: "currentDataIndex (tick ''t1'' sample_server)
             = (currentDataIndex sample_server + 1) mod length (sensorData sample_server)"
    by blast
  then have i0: "currentDataIndex (tick ''t1'' sample_server) = 0"
    by (simp add: sample_server_def)
  from scheduler_tick [of sample_server "''t1''"] n w
  have c: "realtimeConnections (tick ''t1'' sample_server)
              = map (deliver
                       (Message realtime_update
                          \<lparr> payload = sensorData sample_server
                                        ! currentDataIndex (tick ''t1'' sample_server),
                            realtime_timestamp = ''t1'',
                            current_index = currentDataIndex (tick ''t1'' sample_server),
                            total_records = length (sensorData sample_server) \<rparr>))
                    (realtimeConnections sample_server)"
    by blast
  from c have c0: "realtimeConnections (tick ''t1'' sample_server)
       = [deliver (Message realtime_update
                    \<lparr> payload = record_a, realtime_timestamp = ''t1'', current_index = 0,
                      total_records = 3 \<rparr>)
                  open_client]"
    unfolding i0 by (simp add: sample_server_def numeral_3_eq_3)
  have w': "realtimeConnections sample_server = [open_client]" "writable (res open_client)"
    by (simp_all add: sample_server_def open_client_def)
  from e t0 n w' i0 c0 show ?thesis
    by blast
qed



section \<open>Requests on an empty store\<close>

text \<open>
  Claim C7, as amended. On an empty store the statistics handler answers, without
  raising and whatever the engine's limit on arguments, with status 200 and the error body
  \<^verbatim>\<open>No data available\<close>; the recent-data handler answers with status 200 and the empty
  array.
\<close>

theorem empty_store_responses:
  assumes "sensorData s = []"
  shows "statistics_handler max_args s
           = Inr \<lparr> status = 200, body = ErrorBody ''No data available'' \<rparr>
       \<and> recent_data_handler limit_param s = \<lparr> status = 200, body = RecordsBody [] \<rparr>"
  using assms by (simp add: statistics_handler_def recent_data_handler_def json_def slice_def)

theorem empty_store_responses_witness:
  "sensorData empty_server = []
   \<and> statistics_handler sample_max_args empty_server
       = Inr \<lparr> status = 200, body = ErrorBody ''No data available'' \<rparr>
   \<and> recent_data_handler ''10'' empty_server = \<lparr> status = 200, body = RecordsBody [] \<rparr>"
  using empty_store_responses [of empty_server sample_max_args "''10''"]
  by (simp add: empty_server_def)

text \<open>
  The claim as the specification states it fails for the recent-data handler, whose
  answer on an empty store is not the error body.
\<close>

theorem recent_data_no_data_counterexample:
  "\<not> is_no_data (recent_data_handler ''10'' empty_server)"
  by (simp add: is_no_data_def recent_data_handler_def json_def slice_def empty_server_def)

section \<open>The recent-data endpoint\<close>

lemma slice_last_positive:
  "0 < L \<Longrightarrow> slice (Fin (- of_int L)) xs = last_records (nat L) xs"
  by (simp add: slice_def last_records_def max_def) (simp add: nat_diff_distrib')

lemma slice_last_50: "slice (Fin (- 50)) xs = last_records 50 xs"
  using slice_last_positive [of 50 xs] by simp

text \<open>
  Claim C9, as amended. When \<^verbatim>\<open>parseInt\<close> reads a positive integer \<open>L\<close> from the limit
  parameter, the recent-data endpoint returns the last \<open>L\<close> records of the store (all of
  them when there are fewer) in stored order; when it reads no number, or reads zero, the
  endpoint returns the last 50.
\<close>

theorem recent_data_last_records:
  "(0 < L \<and> parseInt limit_param = Fin (of_int L) \<longrightarrow>
      recent_data_handler limit_param s
        = \<lparr> status = 200, body = RecordsBody (last_records (nat L) (sensorData s)) \<rparr>)
   \<and> (parseInt limit_param = NaN \<or> parseInt limit_param = Fin 0 \<longrightarrow>
      recent_data_handler limit_param s
        = \<lparr> status = 200, body = RecordsBody (last_records 50 (sensorData s)) \<rparr>)"
proof -
  have pos: "recent_data_handler limit_param s
        = \<lparr> status = 200, body = RecordsBody (last_records (nat L) (sensorData s)) \<rparr>"
    if "0 < L" and "parseInt limit_param = Fin (of_int L)"
  proof -
    from that have "js_or (parseInt limit_param) (Fin 50) = Fin (of_int L)"
      by (simp add: js_or_def truthy_def)
    with that(1) show ?thesis
      by (simp add: recent_data_handler_def json_def slice_last_positive)
  qed
  have dflt: "recent_data_handler limit_param s
        = \<lparr> status = 200, body = RecordsBody (last_records 50 (sensorData s)) \<rparr>"
    if "parseInt limit_param = NaN \<or> parseInt limit_param = Fin 0"
  proof -
    from that have "js_or (parseInt limit_param) (Fin 50) = Fin 50"
      by (auto simp: js_or_def truthy_def)
    then show ?thesis
      by (simp add: recent_data_handler_def json_def slice_last_50)
  qed
  from pos dflt show ?thesis by blast
qed

theorem recent_data_last_records_witness:
  "parseInt ''2'' = Fin (of_int 2)
   \<and> recent_data_handler ''2'' sample_server
       = \<lparr> status = 200, body = RecordsBody [record_b, record_c] \<rparr>
   \<and> parseInt ''abc'' = NaN
   \<and> recent_data_handler ''abc'' sample_server
       = \<lparr> status = 200, body = RecordsBody [record_a, record_b, record_c] \<rparr>"
proof -
  have p2: "parseInt ''2'' = Fin (of_int 2)" by (simp add: js_eval)
  have pa: "parseInt ''abc'' = NaN" by (simp add: js_eval)
  from recent_data_last_records [of 2 "''2''" sample_server] p2
  have "recent_data_handler ''2'' sample_server
       = \<lparr> status = 200, body = RecordsBody (last_records (nat 2) (sensorData sample_server)) \<rparr>"
    by simp
  moreover from recent_data_last_records [of 1 "''abc''" sample_server] pa
  have "recent_data_handler ''abc'' sample_server
       = \<lparr> status = 200, body = RecordsBody (last_records 50 (sensorData sample_server)) \<rparr>"
    by simp
  ultimately show ?thesis
    using p2 pa by (simp add: last_records_def sample_server_def)
qed

text \<open>
  The claim as the specification states it fails for the numeric limit \<^verbatim>\<open>0\<close>: the
  last zero records are none, and the endpoint returns the whole three-record store.
\<close>

theorem recent_data_limit_zero_counterexample:
  "parseInt ''0'' = Fin 0
   \<and> last_records 0 (sensorData sample_server) = []
   \<and> recent_data_handler ''0'' sample_server
       = \<lparr> status = 200, body = RecordsBody [record_a, record_b, record_c] \<rparr>"
proof -
  have p0: "parseInt ''0'' = Fin 0" by (simp add: js_eval)
  then have "js_or (parseInt ''0'') (Fin 50) = Fin 50"
    by (simp add: js_or_def truthy_def)
  then have "recent_data_handler ''0'' sample_server
       = \<lparr> status = 200, body = RecordsBody (last_records 50 (sensorData sample_server)) \<rparr>"
    by (simp add: recent_data_handler_def json_def slice_last_50)
  with p0 show ?thesis
    by (simp add: last_records_def sample_server_def)
qed

section \<open>The longest activation\<close>

lemma active_run_Nil: "active_run xs []"
  by (simp add: active_run_def)

lemma run_lengths_bounded: "length ` {ys. active_run xs ys} \<subseteq> {..length xs}"
  by (auto simp: active_run_def dest: sublist_length_le)

lemma run_lengths_finite: "finite (length ` {ys. active_run xs ys})"
  by (rule finite_subset [OF run_lengths_bounded]) simp

lemma run_lengths_nonempty: "length ` {ys. active_run xs ys} \<noteq> {}"
  using active_run_Nil by blast

lemma prefix_run_le:
  assumes "prefix ys zs" and "\<forall>y \<in> set ys. positive y"
  shows "length ys \<le> length (takeWhile positive zs)"
proof (rule length_takeWhile_less_P_nth)
  from assms(1) show "length ys \<le> length zs" by (rule prefix_length_le)
next
  fix i assume "i < length ys"
  with assms(1) have "zs ! i = ys ! i" by (auto simp: prefix_def nth_append)
  with assms(2) \<open>i < length ys\<close> show "positive (zs ! i)" by simp
qed

lemma takeWhile_active: "active_run xs (takeWhile positive xs)"
  unfolding active_run_def positive_def [symmetric]
  by (auto dest: set_takeWhileD intro: prefix_imp_sublist takeWhile_is_prefix)

lemma spec_longest_ge_prefix: "length (takeWhile positive xs) \<le> spec_longest_activation xs"
  unfolding spec_longest_activation_def
  by (rule Max_ge [OF run_lengths_finite]) (use takeWhile_active in blast)

lemma spec_longest_Nil: "spec_longest_activation [] = 0"
  by (simp add: spec_longest_activation_def active_run_def)

lemma spec_longest_Cons:
  "spec_longest_activation (x # xs)
     = max (length (takeWhile positive (x # xs))) (spec_longest_activation xs)"
proof (rule antisym)
  show "spec_longest_activation (x # xs)
          \<le> max (length (takeWhile positive (x # xs))) (spec_longest_activation xs)"
    unfolding spec_longest_activation_def [of "x # xs"]
  proof (rule Max.boundedI [OF run_lengths_finite run_lengths_nonempty])
    fix k assume "k \<in> length ` {ys. active_run (x # xs) ys}"
    then obtain ys where k: "k = length ys" and s: "sublist ys (x # xs)"
      and p: "\<forall>y \<in> set ys. positive y"
      by (auto simp: active_run_def positive_def)
    from s consider "prefix ys (x # xs)" | "sublist ys xs"
      by (auto simp: sublist_Cons_right)
    then show "k \<le> max (length (takeWhile positive (x # xs))) (spec_longest_activation xs)"
    proof cases
      case 1
      from prefix_run_le [OF 1 p] k show ?thesis by simp
    next
      case 2
      with p have "active_run xs ys" by (simp add: active_run_def positive_def)
      then have "length ys \<le> spec_longest_activation xs"
        unfolding spec_longest_activation_def
        by (intro Max_ge [OF run_lengths_finite]) blast
      with k show ?thesis by simp
    qed
  qed
next
  have "spec_longest_activation xs \<le> spec_longest_activation (x # xs)"
    unfolding spec_longest_activation_def
    by (rule Max_mono [OF _ run_lengths_nonempty run_lengths_finite])
       (auto simp: active_run_def sublist_Cons_right)
  with spec_longest_ge_prefix [of "x # xs"]
  show "max (length (takeWhile positive (x # xs))) (spec_longest_activation xs)
          \<le> spec_longest_activation (x # xs)"
    by simp
qed

lemma longest_loop_spec:
  "c \<le> m \<Longrightarrow>
   longest_loop xs m c
     = max m (max (c + length (takeWhile positive xs)) (spec_longest_activation xs))"
proof (induction xs arbitrary: m c)
  case Nil
  then show ?case by (simp add: spec_longest_Nil)
next
  case (Cons x xs)
  show ?case
  proof (cases "positive x")
    case True
    have "longest_loop (x # xs) m c = longest_loop xs (max m (c + 1)) (c + 1)"
      using True by (simp add: positive_def)
    also have "\<dots> = max (max m (c + 1))
        (max (c + 1 + length (takeWhile positive xs)) (spec_longest_activation xs))"
      by (rule Cons.IH) simp
    also have "\<dots> = max m (max (c + length (takeWhile positive (x # xs)))
        (spec_longest_activation (x # xs)))"
      using True by (simp add: spec_longest_Cons)
    finally show ?thesis .
  next
    case False
    have "longest_loop (x # xs) m c = longest_loop xs m 0"
      using False by (simp add: positive_def)
    also have "\<dots> = max m (max (0 + length (takeWhile positive xs)) (spec_longest_activation xs))"
      by (rule Cons.IH) simp
    also have "\<dots> = max m (max (c + length (takeWhile positive (x # xs)))
        (spec_longest_activation (x # xs)))"
      using False Cons.prems spec_longest_ge_prefix [of xs] by (simp add: spec_longest_Cons)
    finally show ?thesis .
  qed
qed

text \<open>
  Claim C4. \<^verbatim>\<open>findLongestActivation\<close> returns the greatest length of a run of
  consecutive entries, in stored order, that are all greater than zero; it returns 3 for
  \<open>[0,1,1,0,1,1,1,0]\<close>, 0 for \<open>[0,0,0]\<close> and 3 for \<open>[1,1,1]\<close>.
\<close>

theorem longest_activation_is_longest_run:
  "findLongestActivation motionData = spec_longest_activation motionData
   \<and> findLongestActivation [Fin 0, Fin 1, Fin 1, Fin 0, Fin 1, Fin 1, Fin 1, Fin 0] = 3
   \<and> findLongestActivation [Fin 0, Fin 0, Fin 0] = 0
   \<and> findLongestActivation [Fin 1, Fin 1, Fin 1] = 3"
  using longest_loop_spec [of 0 0 motionData] spec_longest_ge_prefix [of motionData]
  by (simp add: findLongestActivation_def)

theorem longest_activation_is_longest_run_witness:
  "spec_longest_activation [Fin 0, Fin 1, Fin 1, Fin 0, Fin 1, Fin 1, Fin 1, Fin 0] = 3
   \<and> spec_longest_activation [Fin 2, NaN, Fin (- 1), PInf, Fin (1 / 2)] = 2"
  using longest_activation_is_longest_run [of "[Fin 0, Fin 1, Fin 1, Fin 0, Fin 1, Fin 1, Fin 1, Fin 0]"]
    longest_activation_is_longest_run [of "[Fin 2, NaN, Fin (- 1), PInf, Fin (1 / 2)]"]
  by (simp add: findLongestActivation_def)

section \<open>The loader\<close>

lemma js_or_not_NaN: "\<not> isNaN b \<Longrightarrow> \<not> isNaN (js_or a b)"
  by (simp add: js_or_def truthy_def isNaN_def)

lemma load_appends_every_row:
  "foldl on_data_event store rows
     = store @ map (\<lambda>(now, rid, row). processedRow now rid row) rows"
proof (induction rows arbitrary: store)
  case Nil
  show ?case by simp
next
  case (Cons ev rows)
  obtain now rid row where ev: "ev = (now, rid, row)" by (cases ev) auto
  have z: "\<not> isNaN (Fin 0)" by (simp add: isNaN_def)
  have step: "on_data_event store ev = store @ [processedRow now rid row]"
    by (simp add: on_data_event_def ev on_data_def processedRow_def js_or_not_NaN [OF z])
  have "foldl on_data_event store (ev # rows)
      = foldl on_data_event (store @ [processedRow now rid row]) rows"
    by (simp add: step)
  also have "\<dots> = (store @ [processedRow now rid row])
      @ map (\<lambda>(now, rid, row). processedRow now rid row) rows"
    by (rule Cons.IH)
  finally show ?case
    by (simp add: ev)
qed

text \<open>
  Claim C10. Whatever the row, the temperature and the humidity that the loader computes
  are not NaN, because the chain of \<^verbatim>\<open>||\<close> ends in \<open>0\<close>; so the check before the push
  always passes and the row is appended to the store: after a load the store holds one
  record for every row of the file, in order.
\<close>

theorem loader_never_drops:
  "\<not> isNaN (temperature (processedRow now rid row))
   \<and> \<not> isNaN (humidity (processedRow now rid row))
   \<and> on_data now rid row store = store @ [processedRow now rid row]
   \<and> sensorData (loadAllCSVData (Some rows) s)
       = map (\<lambda>(now, rid, row). processedRow now rid row) rows
   \<and> length (sensorData (loadAllCSVData (Some rows) s)) = length rows"
proof -
  have z: "\<not> isNaN (Fin 0)" by (simp add: isNaN_def)
  have t: "\<not> isNaN (temperature (processedRow now rid row))"
    by (simp add: processedRow_def js_or_not_NaN [OF z])
  have h: "\<not> isNaN (humidity (processedRow now rid row))"
    by (simp add: processedRow_def js_or_not_NaN [OF z])
  have l: "sensorData (loadAllCSVData (Some rows) s)
       = map (\<lambda>(now, rid, row). processedRow now rid row) rows"
    by (simp add: loadAllCSVData_def load_appends_every_row)
  from t h l show ?thesis by (simp add: on_data_def)
qed

lemma chain2: "js_or (js_or a b) (Fin 0) = first_truthy [a, b]"
  by (simp add: js_or_def first_truthy_def)

lemma chain3: "js_or (js_or (js_or a b) c) (Fin 0) = first_truthy [a, b, c]"
  by (simp add: js_or_def first_truthy_def)

lemma str_chain3:
  "str_or (opt_or (opt_or a b) c) d = first_nonempty [a, b, c] d"
  by (cases a; cases b; cases c) (simp_all add: str_or_def opt_or_def first_nonempty_def to_string_def)

lemma parseFloat_undefined: "parseFloat (to_string None) = NaN"
  by (simp add: js_eval)

lemma first_truthy_spec:
  "spec_measurement row as \<noteq> Fin 0 \<Longrightarrow>
   first_truthy (map (\<lambda>a. parseFloat (to_string (row a))) as) = spec_measurement row as"
proof (induction as)
  case Nil
  then show ?case by (simp add: spec_measurement_def)
next
  case (Cons a as)
  show ?case
  proof (cases "usable_alias row a")
    case True
    with Cons.prems have "truthy (parseFloat (to_string (row a)))"
      by (simp add: spec_measurement_def usable_alias_def truthy_def isNaN_def)
    with True show ?thesis
      by (simp add: spec_measurement_def first_truthy_def)
  next
    case False
    then have "parseFloat (to_string (row a)) = NaN"
      using parseFloat_undefined by (cases "row a") (auto simp: usable_alias_def isNaN_def)
    moreover from False Cons.prems have "spec_measurement row as \<noteq> Fin 0"
      by (simp add: spec_measurement_def)
    moreover from False have "spec_measurement row (a # as) = spec_measurement row as"
      by (simp add: spec_measurement_def)
    ultimately show ?thesis
      using Cons.IH by (simp add: first_truthy_def truthy_def)
  qed
qed

text \<open>
  Claim C8, as amended. For every row the loader takes, for each measurement, the parsed
  value of the first alias in priority order whose value is truthy, that is a number other
  than zero, and \<open>0\<close> when there is none (for the motion: \<^verbatim>\<open>parseInt\<close> before
  \<^verbatim>\<open>parseFloat\<close>); the timestamp is the first alias that is present and not empty, else
  the current time. Whenever the first alias that is present and parses to a number has a
  value other than zero, that is the value taken. The row is kept if and only if the
  temperature and the humidity are not NaN.
\<close>

theorem loader_takes_first_truthy_alias:
  "temperature (processedRow now rid row)
     = first_truthy [parseFloat (to_string (row ''temperature'')),
                     parseFloat (to_string (row ''temp''))]
   \<and> humidity (processedRow now rid row)
     = first_truthy [parseFloat (to_string (row ''humidity'')),
                     parseFloat (to_string (row ''hum''))]
   \<and> battery_voltage (processedRow now rid row)
     = first_truthy [parseFloat (to_string (row ''battery_voltage'')),
                     parseFloat (to_string (row ''battery'')),
                     parseFloat (to_string (row ''voltage''))]
   \<and> motion (processedRow now rid row)
     = first_truthy [parseInt (to_string (row ''motion'')),
                     parseFloat (to_string (row ''motion''))]
   \<and> timestamp (processedRow now rid row)
     = first_nonempty [row ''time'', row ''timestamp'', row ''date''] now
   \<and> (spec_measurement row [''temperature'', ''temp''] \<noteq> Fin 0 \<longrightarrow>
        temperature (processedRow now rid row)
          = spec_measurement row [''temperature'', ''temp''])
   \<and> (spec_measurement row [''humidity'', ''hum''] \<noteq> Fin 0 \<longrightarrow>
        humidity (processedRow now rid row) = spec_measurement row [''humidity'', ''hum''])
   \<and> (on_data now rid row store = store @ [processedRow now rid row]
        \<longleftrightarrow> \<not> isNaN (temperature (processedRow now rid row))
            \<and> \<not> isNaN (humidity (processedRow now rid row)))"
proof -
  have t: "temperature (processedRow now rid row)
     = first_truthy (map (\<lambda>a. parseFloat (to_string (row a))) [''temperature'', ''temp''])"
    by (simp add: processedRow_def chain2)
  have h: "humidity (processedRow now rid row)
     = first_truthy (map (\<lambda>a. parseFloat (to_string (row a))) [''humidity'', ''hum''])"
    by (simp add: processedRow_def chain2)
  have b: "battery_voltage (processedRow now rid row)
     = first_truthy [parseFloat (to_string (row ''battery_voltage'')),
                     parseFloat (to_string (row ''battery'')),
                     parseFloat (to_string (row ''voltage''))]"
    by (simp add: processedRow_def chain3)
  have m: "motion (processedRow now rid row)
     = first_truthy [parseInt (to_string (row ''motion'')),
                     parseFloat (to_string (row ''motion''))]"
    by (simp add: processedRow_def chain2)
  have ts: "timestamp (processedRow now rid row)
     = first_nonempty [row ''time'', row ''timestamp'', row ''date''] now"
    by (simp add: processedRow_def str_chain3)
  have st: "spec_measurement row [''temperature'', ''temp''] \<noteq> Fin 0 \<longrightarrow>
        temperature (processedRow now rid row)
          = spec_measurement row [''temperature'', ''temp'']"
    unfolding t using first_truthy_spec [of row "[''temperature'', ''temp'']"] by blast
  have sh: "spec_measurement row [''humidity'', ''hum''] \<noteq> Fin 0 \<longrightarrow>
        humidity (processedRow now rid row) = spec_measurement row [''humidity'', ''hum'']"
    unfolding h using first_truthy_spec [of row "[''humidity'', ''hum'']"] by blast
  have k: "on_data now rid row store = store @ [processedRow now rid row]
        \<longleftrightarrow> \<not> isNaN (temperature (processedRow now rid row))
            \<and> \<not> isNaN (humidity (processedRow now rid row))"
    by (simp add: on_data_def)
  from t h b m ts st sh k show ?thesis by simp
qed

theorem loader_takes_first_truthy_alias_witness:
  "spec_measurement (map_of [(''temp'', ''21.5''), (''hum'', ''40'')]) [''temperature'', ''temp'']
     \<noteq> Fin 0
   \<and> temperature (processedRow ''2024-05-01T10:00:00Z'' ''k3j9x0q1z''
                    (map_of [(''temp'', ''21.5''), (''hum'', ''40'')]))
     = Fin (43 / 2)
   \<and> humidity (processedRow ''2024-05-01T10:00:00Z'' ''k3j9x0q1z''
                 (map_of [(''temp'', ''21.5''), (''hum'', ''40'')]))
     = Fin 40
   \<and> timestamp (processedRow ''2024-05-01T10:00:00Z'' ''k3j9x0q1z''
                 (map_of [(''temp'', ''21.5''), (''hum'', ''40'')]))
     = ''2024-05-01T10:00:00Z''"
  using loader_takes_first_truthy_alias [of "''2024-05-01T10:00:00Z''" "''k3j9x0q1z''"
      "map_of [(''temp'', ''21.5''), (''hum'', ''40'')]" "[]"]
  by (simp add: spec_measurement_def usable_alias_def first_truthy_def first_nonempty_def js_eval)

text \<open>
  The claim as the specification states it fails when the first present alias reads zero:
  the row has \<^verbatim>\<open>temperature\<close> \<open>0\<close> and \<^verbatim>\<open>temp\<close> \<open>5\<close>; the first present alias gives
  \<open>0\<close>, and the loader stores \<open>5\<close>.
\<close>

theorem first_present_alias_counterexample:
  "spec_measurement zero_first_row [''temperature'', ''temp''] = Fin 0
   \<and> temperature (processedRow ''2024-05-01T10:00:00Z'' ''k3j9x0q1z'' zero_first_row) = Fin 5"
  by (simp add: processedRow_def spec_measurement_def usable_alias_def zero_first_row_def js_eval)

section \<open>Rounding gives doubles\<close>

text \<open>
  Rounding is idempotent, so every number that the parsers and the arithmetic produce is
  a double in the sense of \<open>is_double\<close>, and so is every value that the loader stores.
\<close>

lemma pow2_pos: "0 < pow2 k"
  by (simp add: pow2_def)

lemma pow2_powi: "pow2 k = 2 powi k"
proof (cases "0 \<le> k")
  case True
  then show ?thesis by (simp add: pow2_def power_int_def)
next
  case False
  then have "pow2 k = inverse (2 ^ nat (- k))"
    by (simp add: pow2_def inverse_eq_divide)
  also have "\<dots> = inverse 2 ^ nat (- k)"
    by (rule power_inverse [symmetric])
  finally show ?thesis using False by (simp add: power_int_def)
qed

lemma pow2_add: "pow2 (a + b) = pow2 a * pow2 b"
  by (simp add: pow2_powi power_int_add)

lemma pow2_mono: "a \<le> b \<Longrightarrow> pow2 a \<le> pow2 b"
  by (simp add: pow2_powi power_int_increasing)

lemma pow2_strict_mono: "a < b \<Longrightarrow> pow2 a < pow2 b"
  by (simp add: pow2_powi power_int_strict_increasing)

lemma pow2_le_cancel: "pow2 a \<le> pow2 b \<Longrightarrow> a \<le> b"
  using pow2_strict_mono [of b a] by (cases "a \<le> b") auto

lemma pow2_less_cancel: "pow2 a < pow2 b \<Longrightarrow> a < b"
  using pow2_mono [of b a] by (cases "a < b") auto

lemma pow2_nonneg_int: "0 \<le> k \<Longrightarrow> pow2 k = of_int (2 ^ nat k)"
  by (simp add: pow2_def)

lemma floor_log2_bounds:
  assumes "0 < a"
  shows "pow2 (floor_log2 a) \<le> a \<and> a < pow2 (floor_log2 a + 1)"
proof (cases "1 \<le> a")
  case True
  let ?n = "\<lfloor>a\<rfloor>"
  from True have n: "0 < ?n" by simp
  from bitlen_bounds [OF n] have lo: "2 ^ nat (bitlen ?n - 1) \<le> ?n"
    and hi: "?n < 2 ^ nat (bitlen ?n)" by simp_all
  from n have b1: "1 \<le> bitlen ?n"
    using bitlen_eq_zero_iff [of ?n] bitlen_nonneg [of ?n] by linarith
  have fl: "floor_log2 a = bitlen ?n - 1"
    using True by (simp add: floor_log2_def)
  have "pow2 (bitlen ?n - 1) = of_int (2 ^ nat (bitlen ?n - 1))"
    using b1 by (simp add: pow2_nonneg_int)
  also have "\<dots> \<le> of_int ?n"
    using lo by (simp only: of_int_le_iff)
  also have "\<dots> \<le> a" by simp
  finally have L: "pow2 (floor_log2 a) \<le> a" by (simp add: fl)
  from hi have hi': "?n + 1 \<le> 2 ^ nat (bitlen ?n)" by simp
  have "a < of_int (?n + 1)" by linarith
  also have "\<dots> \<le> of_int (2 ^ nat (bitlen ?n))"
    using hi' by (simp only: of_int_le_iff)
  also have "\<dots> = pow2 (bitlen ?n)"
    using b1 by (simp add: pow2_nonneg_int)
  finally have U: "a < pow2 (floor_log2 a + 1)" by (simp add: fl)
  from L U show ?thesis ..
next
  case False
  let ?b = "1 / a"
  let ?n = "\<lceil>?b\<rceil> - 1"
  from False assms have b: "1 < ?b" by simp
  then have n: "0 < ?n" by (simp add: less_ceiling_iff)
  from bitlen_bounds [OF n] have lo: "2 ^ nat (bitlen ?n - 1) \<le> ?n"
    and hi: "?n < 2 ^ nat (bitlen ?n)" by simp_all
  from n have b1: "1 \<le> bitlen ?n"
    using bitlen_eq_zero_iff [of ?n] bitlen_nonneg [of ?n] by linarith
  have fl: "floor_log2 a = - bitlen ?n"
    using False by (simp add: floor_log2_def)
  from hi have hi': "\<lceil>?b\<rceil> \<le> 2 ^ nat (bitlen ?n)" by simp
  have "?b \<le> of_int \<lceil>?b\<rceil>" by (rule le_of_int_ceiling)
  also have "\<dots> \<le> of_int (2 ^ nat (bitlen ?n))"
    using hi' by (simp only: of_int_le_iff)
  finally have "?b \<le> 2 ^ nat (bitlen ?n)" by simp
  with assms have "1 / 2 ^ nat (bitlen ?n) \<le> a"
    by (simp add: field_simps)
  with b1 have L: "pow2 (floor_log2 a) \<le> a"
    by (simp add: fl pow2_def)
  have "(of_int (2 ^ nat (bitlen ?n - 1)) :: rat) \<le> of_int ?n"
    using lo by (simp only: of_int_le_iff)
  also have "\<dots> < ?b"
    using ceiling_correct [of ?b] by simp
  finally have lt: "2 ^ nat (bitlen ?n - 1) < ?b" by simp
  with assms have "a < 1 / 2 ^ nat (bitlen ?n - 1)"
    by (simp add: field_simps)
  moreover have "pow2 (- bitlen ?n + 1) = 1 / 2 ^ nat (bitlen ?n - 1)"
    using b1 by (cases "bitlen ?n = 1") (simp_all add: pow2_def)
  ultimately have U: "a < pow2 (floor_log2 a + 1)"
    by (simp add: fl)
  from L U show ?thesis ..
qed

lemma floor_log2_le:
  assumes "0 < a" and "a < pow2 (k + 1)"
  shows "floor_log2 a \<le> k"
proof -
  from floor_log2_bounds [OF assms(1)] assms(2)
  have "pow2 (floor_log2 a) < pow2 (k + 1)" by simp
  then have "floor_log2 a < k + 1" by (rule pow2_less_cancel)
  then show ?thesis by simp
qed

lemma floor_log2_ge:
  assumes "0 < a" and "pow2 k \<le> a"
  shows "k \<le> floor_log2 a"
proof -
  from floor_log2_bounds [OF assms(1)] assms(2)
  have "pow2 k < pow2 (floor_log2 a + 1)" by simp
  then have "k < floor_log2 a + 1" by (rule pow2_less_cancel)
  then show ?thesis by simp
qed

lemma round_half_even_of_int: "round_half_even (of_int k) = k"
  by (simp add: round_half_even_def round_half_even_from_def)

lemma round_half_even_lower:
  assumes "of_int N \<le> x"
  shows "N \<le> round_half_even x"
proof -
  from assms have "N \<le> \<lfloor>x\<rfloor>" by (simp add: le_floor_iff)
  then show ?thesis
    by (auto simp: round_half_even_def round_half_even_from_def)
qed

lemma round_half_even_upper:
  assumes "x \<le> of_int N"
  shows "round_half_even x \<le> N"
proof (cases "x = of_int N")
  case True
  then show ?thesis by (simp add: round_half_even_of_int)
next
  case False
  with assms have "x < of_int N" by simp
  then have "\<lfloor>x\<rfloor> < N" by (simp add: floor_less_iff)
  then show ?thesis
    by (auto simp: round_half_even_def round_half_even_from_def)
qed

lemma round_double_fixed:
  assumes "0 < v" and "\<not> pow2 1024 \<le> v" and "v = of_int k * quantum v"
  shows "round_double v = Fin v" and "round_double (- v) = Fin (- v)"
proof -
  have q: "0 < quantum v" by (simp add: quantum_def pow2_pos)
  with assms(3) have "v / quantum v = of_int k"
    by (simp add: field_simps)
  then have "round_to_quantum (quantum v) v = v"
    using assms(3) by (simp add: round_to_quantum_def round_half_even_of_int)
  with assms(1,2) show "round_double v = Fin v" and "round_double (- v) = Fin (- v)"
    by (simp_all add: round_double_def finite_or_inf_def)
qed

lemma round_double_is_double: "is_double (round_double r)"
proof (cases "r = 0")
  case True
  then show ?thesis by (simp add: round_double_def is_double_def)
next
  case False
  define a where "a = \<bar>r\<bar>"
  define e where "e = max (floor_log2 a) (- 1022)"
  define q where "q = pow2 (e - 52)"
  define m where "m = round_half_even (a / q)"
  define v where "v = of_int m * q"
  from False have a: "0 < a" by (simp add: a_def)
  have q: "0 < q" by (simp add: q_def pow2_pos)
  have e_lo: "- 1022 \<le> e" and e_fl: "floor_log2 a \<le> e"
    by (simp_all add: e_def)
  have qa: "quantum a = q" by (simp add: quantum_def q_def e_def)
  have rd: "round_double r = finite_or_inf (r < 0) v"
    using False by (simp add: round_double_def a_def [symmetric] qa round_to_quantum_def
        m_def [symmetric] v_def)
  have top: "pow2 (e + 1) = of_int (2 ^ 53) * q"
  proof -
    have "e + 1 = 53 + (e - 52)" by simp
    then have "pow2 (e + 1) = pow2 (53 + (e - 52))" by (rule arg_cong)
    also have "\<dots> = pow2 53 * pow2 (e - 52)" by (rule pow2_add)
    finally show ?thesis by (simp add: q_def pow2_def)
  qed
  have "a < pow2 (floor_log2 a + 1)"
    using floor_log2_bounds [OF a] by simp
  also have "\<dots> \<le> pow2 (e + 1)"
    using e_fl by (intro pow2_mono) simp
  finally have "a < of_int (2 ^ 53) * q" by (simp only: top)
  with q have "a / q \<le> of_int (2 ^ 53)"
    by (simp add: field_simps)
  then have m_hi: "m \<le> 2 ^ 53"
    unfolding m_def by (rule round_half_even_upper)
  from a q have "of_int 0 \<le> a / q" by simp
  then have m_lo: "0 \<le> m"
    unfolding m_def by (rule round_half_even_lower)
  show ?thesis
  proof (cases "pow2 1024 \<le> v")
    case True
    then show ?thesis by (simp add: rd finite_or_inf_def is_double_def)
  next
    case fin: False
    show ?thesis
    proof (cases "m = 0")
      case True
      then have "v = 0" by (simp add: v_def)
      with fin have "round_double r = Fin 0"
        by (simp add: rd finite_or_inf_def)
      then show ?thesis
        by (simp add: is_double_def round_double_def)
    next
      case False
      with m_lo have m_pos: "0 < m" by simp
      with q have v: "0 < v" by (simp add: v_def)
      have v_hi: "v \<le> pow2 (e + 1)"
      proof -
        from m_hi have "(of_int m :: rat) \<le> of_int (2 ^ 53)"
          by (simp only: of_int_le_iff)
        with q show ?thesis
          unfolding v_def top by (simp add: mult_right_mono)
      qed
      also have "\<dots> < pow2 (e + 1 + 1)"
        by (rule pow2_strict_mono) simp
      finally have fl_v: "floor_log2 v \<le> e + 1"
        by (rule floor_log2_le [OF v])
      define e' where "e' = max (floor_log2 v) (- 1022)"
      have qv: "quantum v = pow2 (e' - 52)"
        by (simp add: quantum_def e'_def)
      have "\<exists>k. v = of_int k * quantum v"
      proof (cases "e' \<le> e")
        case True
        have "e - 52 = (e - e') + (e' - 52)" by simp
        then have "pow2 (e - 52) = pow2 ((e - e') + (e' - 52))" by (rule arg_cong)
        also have "\<dots> = pow2 (e - e') * pow2 (e' - 52)" by (rule pow2_add)
        also have "pow2 (e - e') = of_int (2 ^ nat (e - e'))"
          using True by (simp add: pow2_nonneg_int)
        finally have eq: "pow2 (e - 52) = of_int (2 ^ nat (e - e')) * pow2 (e' - 52)" .
        have "v = of_int m * pow2 (e - 52)"
          by (simp add: v_def q_def)
        also have "\<dots> = of_int (m * 2 ^ nat (e - e')) * pow2 (e' - 52)"
          by (simp add: eq)
        finally have "v = of_int (m * 2 ^ nat (e - e')) * pow2 (e' - 52)" .
        then have "v = of_int (m * 2 ^ nat (e - e')) * quantum v"
          unfolding qv .
        then show ?thesis ..
      next
        case False
        with e_lo fl_v have e': "e' = e + 1" and fl: "floor_log2 v = e + 1"
          by (simp_all add: e'_def)
        from floor_log2_bounds [OF v] fl have "pow2 (e + 1) \<le> v" by simp
        with v_hi have "v = pow2 (e + 1)" by simp
        moreover have "e + 1 = 52 + (e' - 52)" by (simp add: e')
        ultimately have "v = pow2 (52 + (e' - 52))" by (simp only:)
        also have "\<dots> = pow2 52 * pow2 (e' - 52)" by (rule pow2_add)
        also have "pow2 52 = of_int (2 ^ 52)"
          by (simp add: pow2_def)
        finally have "v = of_int (2 ^ 52) * pow2 (e' - 52)" .
        then have "v = of_int (2 ^ 52) * quantum v"
          unfolding qv .
        then show ?thesis ..
      qed
      then obtain k where k: "v = of_int k * quantum v" ..
      from fin have "round_double r = Fin (if r < 0 then - v else v)"
        by (simp add: rd finite_or_inf_def)
      with round_double_fixed [OF v fin k] show ?thesis
        by (simp add: is_double_def)
    qed
  qed
qed

lemma round_double_minus: "round_double (- r) = js_neg (round_double r)"
  by (simp add: round_double_def finite_or_inf_def)

lemma js_neg_is_double: "is_double x \<Longrightarrow> is_double (js_neg x)"
  by (cases x) (simp_all add: is_double_def round_double_minus)

lemma js_or_is_double: "is_double a \<Longrightarrow> is_double b \<Longrightarrow> is_double (js_or a b)"
  by (simp add: js_or_def)

lemma zero_is_double: "is_double (Fin 0)"
  by (simp add: is_double_def round_double_def)

lemma parseFloat_is_double: "is_double (parseFloat s)"
proof -
  have d: "is_double (decimal_value ip fp rest)" for ip fp rest
    by (simp add: decimal_value_def round_double_is_double) (simp add: is_double_def)
  have f: "is_double (fraction_part ip r1)" for ip r1
    by (simp add: fraction_part_def d split: list.splits)
  have u: "is_double (str_unsigned_decimal t)" for t
    by (simp add: str_unsigned_decimal_def f) (simp add: is_double_def)
  have "is_double (str_decimal t)" for t
    by (simp add: str_decimal_def u js_neg_is_double split: list.splits)
       (simp add: is_double_def)
  then show ?thesis by (simp add: parseFloat_def)
qed

lemma parseInt_is_double: "is_double (parseInt s)"
proof -
  have d: "is_double (int_digits R t)" for R t
    by (simp add: int_digits_def round_double_is_double) (simp add: is_double_def)
  have p: "is_double (int_prefix t)" for t
    by (simp add: int_prefix_def d)
  have "is_double (int_sign t)" for t
    by (simp add: int_sign_def p js_neg_is_double split: list.splits)
       (simp add: is_double_def)
  then show ?thesis by (simp add: parseInt_def)
qed

lemma arithmetic_gives_doubles:
  "is_double (js_add x y)" "is_double (js_sub x y)" "is_double (js_mul x y)"
  "is_double (js_div x y)" "is_double (js_sqrt x)"
proof -
  show a: "is_double (js_add x y)" for x y
    by (cases x; cases y) (simp_all add: round_double_is_double, simp_all add: is_double_def)
  show "is_double (js_sub x y)"
    unfolding js_sub_def by (rule a)
  show "is_double (js_mul x y)"
    by (cases x; cases y)
       (simp_all add: round_double_is_double signed_inf_def, simp_all add: is_double_def)
  show "is_double (js_div x y)"
    by (cases x; cases y)
       (simp_all add: round_double_is_double signed_inf_def zero_is_double,
        simp_all add: is_double_def)
  show "is_double (js_sqrt x)"
    by (cases x)
       (simp_all add: sqrt_double_def sqrt_shift_def round_double_is_double zero_is_double,
        simp_all add: is_double_def)
qed

lemma loader_stores_doubles:
  "is_double (temperature (processedRow now rid row))
   \<and> is_double (humidity (processedRow now rid row))
   \<and> is_double (battery_voltage (processedRow now rid row))
   \<and> is_double (motion (processedRow now rid row))"
  by (simp add: processedRow_def js_or_is_double parseFloat_is_double parseInt_is_double
      zero_is_double)

lemma loaded_store_holds_doubles:
  "\<forall>r \<in> set (sensorData (loadAllCSVData (Some rows) s)).
     is_double (temperature r) \<and> is_double (humidity r)"
proof -
  have "foldl on_data_event [] rows = map (\<lambda>(now, rid, row). processedRow now rid row) rows"
    by (simp add: load_appends_every_row)
  then show ?thesis
    by (auto simp: loadAllCSVData_def loader_stores_doubles)
qed

section \<open>Integers are summed exactly\<close>

text \<open>
  An integer of magnitude at most \<open>2^53\<close> is a double, so a series of equal integers is
  summed and averaged without rounding as long as the sum stays in that range.
\<close>

lemma round_double_zero: "round_double 0 = Fin 0"
  by (simp add: round_double_def)

lemma pos_int_is_double:
  assumes "0 < k" and "k \<le> 2 ^ 53"
  shows "round_double (of_int k) = Fin (of_int k)"
    and "round_double (- of_int k) = Fin (- of_int k)"
proof -
  let ?v = "of_int k :: rat"
  from assms(1) have v: "0 < ?v" by simp
  have "?v \<le> of_int (2 ^ 53)"
    using assms(2) by (simp only: of_int_le_iff)
  also have "\<dots> = pow2 53" by (simp add: pow2_def)
  finally have le53: "?v \<le> pow2 53" .
  also have "\<dots> < pow2 1024" by (rule pow2_strict_mono) simp
  finally have fin: "\<not> pow2 1024 \<le> ?v" by simp
  from le53 have "?v < pow2 (53 + 1)"
    using pow2_strict_mono [of 53 54] by simp
  then have fl_hi: "floor_log2 ?v \<le> 53" by (rule floor_log2_le [OF v])
  have "pow2 0 \<le> ?v" using assms(1) by (simp add: pow2_def)
  then have fl_lo: "0 \<le> floor_log2 ?v" by (rule floor_log2_ge [OF v])
  define e where "e = floor_log2 ?v"
  have q: "quantum ?v = pow2 (e - 52)"
    using fl_lo by (simp add: quantum_def e_def)
  have "\<exists>j. ?v = of_int j * quantum ?v"
  proof (cases "e \<le> 52")
    case True
    have "pow2 (52 - e) * pow2 (e - 52) = pow2 ((52 - e) + (e - 52))"
      by (rule pow2_add [symmetric])
    also have "\<dots> = 1" by (simp add: pow2_def)
    finally have one: "pow2 (52 - e) * pow2 (e - 52) = 1" .
    have "pow2 (52 - e) = of_int (2 ^ nat (52 - e))"
      using True by (simp add: pow2_nonneg_int)
    with one have "of_int (2 ^ nat (52 - e)) * pow2 (e - 52) = (1::rat)" by simp
    then have "?v = of_int (k * 2 ^ nat (52 - e)) * pow2 (e - 52)"
      by (simp add: mult.assoc)
    then have "?v = of_int (k * 2 ^ nat (52 - e)) * quantum ?v"
      unfolding q .
    then show ?thesis ..
  next
    case False
    with fl_hi have e: "e = 53" by (simp add: e_def)
    from floor_log2_bounds [OF v] have "pow2 53 \<le> ?v"
      using e by (simp add: e_def)
    with le53 have "?v = pow2 53" by simp
    also have "\<dots> = of_int (2 ^ 52) * pow2 (e - 52)"
      by (simp add: e pow2_def)
    finally have "?v = of_int (2 ^ 52) * quantum ?v"
      unfolding q .
    then show ?thesis ..
  qed
  then obtain j where j: "?v = of_int j * quantum ?v" ..
  from round_double_fixed [OF v fin j]
  show "round_double (of_int k) = Fin (of_int k)"
    and "round_double (- of_int k) = Fin (- of_int k)"
    by simp_all
qed

lemma int_is_double:
  assumes "\<bar>k\<bar> \<le> 2 ^ 53"
  shows "round_double (of_int k) = Fin (of_int k)"
proof -
  consider "k = 0" | "0 < k" | "k < 0" by linarith
  then show ?thesis
  proof cases
    case 1
    then show ?thesis by (simp add: round_double_zero)
  next
    case 2
    with assms show ?thesis by (simp add: pos_int_is_double)
  next
    case 3
    with assms have "0 < - k" and "- k \<le> 2 ^ 53" by simp_all
    from pos_int_is_double(2) [OF this] show ?thesis by simp
  qed
qed

lemma constant_int_sum:
  assumes "\<forall>x \<in> set xs. x = Fin (of_int k)"
    and "int (i + length xs) * \<bar>k\<bar> \<le> 2 ^ 53"
  shows "foldl js_add (Fin (of_int (int i * k))) xs
           = Fin (of_int (int (i + length xs) * k))"
  using assms
proof (induction xs arbitrary: i)
  case Nil
  then show ?case by simp
next
  case (Cons x xs)
  from Cons.prems(1) have x: "x = Fin (of_int k)" by simp
  have "int (Suc i) * \<bar>k\<bar> \<le> int (i + length (x # xs)) * \<bar>k\<bar>"
    by (intro mult_right_mono) simp_all
  with Cons.prems(2) have "\<bar>int (Suc i) * k\<bar> \<le> 2 ^ 53"
    by (simp add: abs_mult)
  then have r: "round_double (of_int (int (Suc i) * k)) = Fin (of_int (int (Suc i) * k))"
    by (rule int_is_double)
  have "js_add (Fin (of_int (int i * k))) x = round_double (of_int (int (Suc i) * k))"
    by (simp add: x algebra_simps)
  with r have a: "js_add (Fin (of_int (int i * k))) x = Fin (of_int (int (Suc i) * k))"
    by simp
  have "foldl js_add (Fin (of_int (int (Suc i) * k))) xs
      = Fin (of_int (int (Suc i + length xs) * k))"
    using Cons.prems by (intro Cons.IH) simp_all
  then show ?case
    by (simp add: a del: of_int_mult of_int_add)
qed

lemma constant_int_mean:
  assumes "xs \<noteq> []" and "\<forall>x \<in> set xs. x = Fin (of_int k)"
    and "int (length xs) * \<bar>k\<bar> \<le> 2 ^ 53"
  shows "avg xs = Fin (of_int k)"
proof -
  have "foldl js_add (Fin (of_int (int 0 * k))) xs = Fin (of_int (int (0 + length xs) * k))"
    using assms(2,3) by (intro constant_int_sum) simp_all
  then have s: "foldl js_add (Fin 0) xs = Fin (of_int (int (length xs)) * of_int k)"
    by simp
  from assms(1) have n: "(of_nat (length xs) :: rat) \<noteq> 0" by simp
  from assms(1) have "1 * \<bar>k\<bar> \<le> int (length xs) * \<bar>k\<bar>"
    by (intro mult_right_mono) (cases xs, simp_all)
  with assms(3) have k: "\<bar>k\<bar> \<le> 2 ^ 53" by simp
  show ?thesis
    using n by (simp add: avg_def reduce_def s js_of_nat_def int_is_double [OF k])
qed

lemma constant_int_series_sum:
  assumes "\<forall>x \<in> set xs. x = Fin (of_int k)" and "int (length xs) * \<bar>k\<bar> \<le> 2 ^ 53"
  shows "series_sum xs = Fin (of_int (int (length xs) * k))"
proof -
  have "foldl js_add (Fin (of_int (int 0 * k))) xs = Fin (of_int (int (0 + length xs) * k))"
    using assms by (intro constant_int_sum) simp_all
  then show ?thesis by (simp add: series_sum_def)
qed

lemma constant_int_squares:
  assumes "\<forall>v \<in> set x. v = Fin (of_int k)" and "k * k \<le> 2 ^ 53"
  shows "\<forall>w \<in> set (map2 js_mul x x). w = Fin (of_int (k * k))"
proof
  fix w assume "w \<in> set (map2 js_mul x x)"
  then obtain a b where ab: "(a, b) \<in> set (zip x x)" and w: "w = js_mul a b" by auto
  from ab have "a \<in> set x" and "b \<in> set x"
    by (auto dest: set_zip_leftD set_zip_rightD)
  with assms(1) have "a = Fin (of_int k)" and "b = Fin (of_int k)" by blast+
  moreover from assms(2) have "\<bar>k * k\<bar> \<le> 2 ^ 53" by simp
  then have "round_double (of_int (k * k)) = Fin (of_int (k * k))" by (rule int_is_double)
  ultimately show "w = Fin (of_int (k * k))" by (simp add: w)
qed

lemma int_abs_le_square: "\<bar>m\<bar> \<le> m * m" for m :: int
proof (cases "m = 0")
  case True
  then show ?thesis by simp
next
  case False
  then have "1 \<le> \<bar>m\<bar>" by simp
  then have "\<bar>m\<bar> * 1 \<le> \<bar>m\<bar> * \<bar>m\<bar>"
    by (intro mult_left_mono) simp_all
  then show ?thesis by (simp add: abs_mult_self_eq)
qed

lemma constant_int_variance_term:
  assumes "\<forall>v \<in> set x. v = Fin (of_int k)"
    and "(int (length x) * k) * (int (length x) * k) \<le> 2 ^ 53"
  shows "spec_variance_term x = Fin 0"
proof (cases "x = []")
  case True
  then show ?thesis
    by (simp add: spec_variance_term_def series_sum_def js_of_nat_def js_sub_def
        round_double_zero)
next
  case False
  let ?n = "int (length x)"
  from False have n1: "1 \<le> ?n" by (cases x) simp_all
  have nn: "?n * ?n * (k * k) \<le> 2 ^ 53"
    using assms(2) by (simp add: algebra_simps)
  have kk0: "0 \<le> k * k" by simp
  have a1: "1 * (k * k) \<le> ?n * (k * k)"
    using n1 kk0 by (intro mult_right_mono) simp_all
  have a2: "?n * (k * k) \<le> ?n * (?n * (k * k))"
    using mult_left_mono [OF a1, of ?n] by simp
  from a1 a2 nn have kk: "k * k \<le> 2 ^ 53" and nkk: "?n * (k * k) \<le> 2 ^ 53"
    by (simp_all add: algebra_simps)
  have "\<bar>?n * k\<bar> \<le> (?n * k) * (?n * k)" by (rule int_abs_le_square)
  with assms(2) have nk: "?n * \<bar>k\<bar> \<le> 2 ^ 53"
    by (simp add: abs_mult)
  have sq: "series_sum (map2 js_mul x x) = Fin (of_int (?n * (k * k)))"
  proof -
    have "series_sum (map2 js_mul x x)
        = Fin (of_int (int (length (map2 js_mul x x)) * (k * k)))"
      using constant_int_squares [OF assms(1) kk] nkk
      by (intro constant_int_series_sum) (simp_all add: abs_mult)
    then show ?thesis by simp
  qed
  have sm: "series_sum x = Fin (of_int (?n * k))"
    by (rule constant_int_series_sum [OF assms(1) nk])
  have r1: "round_double (of_int (?n * (?n * (k * k)))) = Fin (of_int (?n * (?n * (k * k))))"
    using nn by (intro int_is_double) (simp add: algebra_simps abs_mult)
  have r2: "round_double (of_int ((?n * k) * (?n * k))) = Fin (of_int ((?n * k) * (?n * k)))"
    using assms(2) by (intro int_is_double) (simp add: abs_mult)
  have m1: "js_mul (js_of_nat (length x)) (series_sum (map2 js_mul x x))
      = Fin (of_int (?n * (?n * (k * k))))"
    using r1 by (simp add: sq js_of_nat_def)
  have m2: "js_mul (series_sum x) (series_sum x) = Fin (of_int ((?n * k) * (?n * k)))"
    using r2 by (simp add: sm)
  have eq: "?n * (?n * (k * k)) = (?n * k) * (?n * k)"
    by (simp add: algebra_simps)
  show ?thesis
    unfolding spec_variance_term_def m1 m2 eq
    by (simp add: js_sub_def round_double_zero)
qed

section \<open>The square root of a square\<close>

text \<open>
  \<open>isqrt\<close> is the integer square root, so the square of a positive integer \<open>a\<close> with
  \<open>a\<^sup>2 \<le> 2^53\<close> has the square root \<open>a\<close> exactly.
\<close>

lemma isqrt_bounds:
  "0 \<le> n \<Longrightarrow> 0 \<le> isqrt n \<and> isqrt n * isqrt n \<le> n \<and> n < (isqrt n + 1) * (isqrt n + 1)"
proof (induction n rule: isqrt.induct)
  case (1 n)
  show ?case
  proof (cases "n < 4")
    case True
    with "1.prems" show ?thesis
      by (subst (1 2 3 4 5) isqrt.simps) auto
  next
    case False
    define r where "r = isqrt (n div 4)"
    from False "1.prems" have "0 \<le> n div 4" by simp
    from "1.IH" [OF False this]
    have r0: "0 \<le> r" and lo: "r * r \<le> n div 4" and hi: "n div 4 < (r + 1) * (r + 1)"
      by (simp_all add: r_def)
    have eq: "isqrt n = isqrt_step n (2 * r)"
      using False by (subst isqrt.simps) (simp add: r_def)
    have d: "4 * (n div 4) \<le> n" "n < 4 * (n div 4) + 4"
      by simp_all
    define u where "u = 2 * r + 2"
    from lo have lo4: "(2 * r) * (2 * r) \<le> 4 * (n div 4)"
      by (simp add: algebra_simps)
    from hi have "n div 4 + 1 \<le> (r + 1) * (r + 1)" by simp
    then have hi4: "4 * (n div 4) + 4 \<le> u * u"
      by (simp add: u_def algebra_simps)
    from d lo4 have L: "(2 * r) * (2 * r) \<le> n" by linarith
    from d hi4 have U: "n < u * u" by linarith
    show ?thesis
    proof (cases "(2 * r + 1) * (2 * r + 1) \<le> n")
      case True
      then have i: "isqrt n = 2 * r + 1" by (simp add: eq isqrt_step_def)
      then have "isqrt n + 1 = u" by (simp add: u_def)
      with True U r0 i show ?thesis by simp
    next
      case False
      then have i: "isqrt n = 2 * r" by (simp add: eq isqrt_step_def)
      with False L r0 show ?thesis by simp
    qed
  qed
qed

lemma isqrt_square:
  assumes "0 \<le> m"
  shows "isqrt (m * m) = m"
proof -
  define r where "r = isqrt (m * m)"
  have "0 \<le> m * m" by simp
  from isqrt_bounds [OF this]
  have r0: "0 \<le> r" and lo: "r * r \<le> m * m" and hi: "m * m < (r + 1) * (r + 1)"
    by (simp_all add: r_def)
  have "r \<le> m"
  proof (rule ccontr)
    assume "\<not> r \<le> m"
    then have "m + 1 \<le> r" by simp
    with assms have "(m + 1) * (m + 1) \<le> r * r"
      by (intro mult_mono) simp_all
    with lo assms show False by (simp add: algebra_simps)
  qed
  moreover have "m \<le> r"
  proof (rule ccontr)
    assume "\<not> m \<le> r"
    then have "r + 1 \<le> m" by simp
    with r0 have "(r + 1) * (r + 1) \<le> m * m"
      by (intro mult_mono) simp_all
    with hi show False by simp
  qed
  ultimately show ?thesis by (simp add: r_def)
qed

lemma sqrt_double_square:
  assumes "0 < a" and "a * a \<le> 2 ^ 53"
  shows "sqrt_double (of_int (a * a)) = Fin (of_int a)"
proof -
  let ?v = "of_int (a * a) :: rat"
  from assms(1) have aa: "0 < a * a" by simp
  then have v: "0 < ?v" by (simp only: of_int_0_less_iff)
  from aa have "1 \<le> a * a" by simp
  then have "(1::rat) \<le> ?v" by (simp only: of_int_1_le_iff)
  then have "pow2 0 \<le> ?v" by (simp add: pow2_def del: of_int_mult)
  then have f0: "0 \<le> floor_log2 ?v" by (rule floor_log2_ge [OF v])
  have "?v \<le> of_int (2 ^ 53)" using assms(2) by (simp only: of_int_le_iff)
  also have "\<dots> = pow2 53" by (simp add: pow2_def)
  also have "\<dots> < pow2 (53 + 1)" by (rule pow2_strict_mono) simp
  finally have f1: "floor_log2 ?v \<le> 53" by (rule floor_log2_le [OF v])
  define s where "s = 55 - floor_log2 ?v div 2"
  from f0 f1 have s: "0 \<le> s" by (simp add: s_def)
  define p where "p = (2::int) ^ nat s"
  have p0: "0 < p" by (simp add: p_def)
  have ps: "pow2 s = of_int p" using s by (simp add: p_def pow2_nonneg_int)
  have "pow2 (2 * s) = pow2 (s + s)" by simp
  also have "\<dots> = pow2 s * pow2 s" by (rule pow2_add)
  finally have p2: "pow2 (2 * s) = of_int (p * p)" by (simp add: ps)
  have t: "?v * pow2 (2 * s) = of_int ((a * p) * (a * p))"
    unfolding p2 by (simp add: algebra_simps)
  have ap: "0 \<le> a * p" using assms(1) p0 by simp
  have root: "isqrt ((a * p) * (a * p)) = a * p" by (rule isqrt_square [OF ap])
  have "pow2 s * pow2 (- s) = pow2 (s + - s)" by (rule pow2_add [symmetric])
  also have "\<dots> = 1" by (simp add: pow2_def)
  finally have inv: "of_int p * pow2 (- s) = 1" by (simp add: ps)
  have sc: "sqrt_scaled s (?v * pow2 (2 * s)) = of_int a"
  proof -
    have "sqrt_scaled s (?v * pow2 (2 * s)) = of_int (a * p) * pow2 (- s)"
      unfolding t by (simp add: sqrt_scaled_def sqrt_inexact_def root del: of_int_mult)
    also have "\<dots> = of_int a * (of_int p * pow2 (- s))" by (simp add: mult.assoc)
    finally show ?thesis by (simp add: inv)
  qed
  have "\<bar>a\<bar> \<le> a * a" by (rule int_abs_le_square)
  with assms(2) have a53: "\<bar>a\<bar> \<le> 2 ^ 53" by simp
  show ?thesis
    unfolding sqrt_double_def s_def [symmetric] sqrt_shift_def sc
    by (rule int_is_double [OF a53])
qed

lemma sqrt_of_square:
  assumes "0 < a" and "a * a \<le> 2 ^ 53"
  shows "js_sqrt (js_mul (Fin (of_int a)) (Fin (of_int a))) = Fin (of_int a)"
proof -
  from assms have "\<bar>a * a\<bar> \<le> 2 ^ 53" by simp
  then have "round_double (of_int (a * a)) = Fin (of_int (a * a))" by (rule int_is_double)
  then have "js_mul (Fin (of_int a)) (Fin (of_int a)) = Fin (of_int (a * a))" by simp
  moreover from assms(1) have "(0::rat) < of_int (a * a)"
    by (simp only: of_int_0_less_iff) simp
  ultimately show ?thesis
    using sqrt_double_square [OF assms] by simp
qed

section \<open>The standard deviation\<close>

lemma js_add_zero_left: "is_double x \<Longrightarrow> js_add (Fin 0) x = x"
  by (cases x) (simp_all add: is_double_def)

lemma reduce1_is_sum:
  "is_double x \<Longrightarrow> reduce1 js_add (x # xs) = Inr (reduce js_add (Fin 0) (x # xs))"
  by (simp add: reduce1_def reduce_def js_add_zero_left)

lemma sq_callback_mean:
  "is_double x \<Longrightarrow>
   sq_callback (x # xs) sq n = Inr (js_add sq (js_pow2 (js_sub n (avg (x # xs)))))"
  by (simp add: sq_callback_def reduce1_is_sum avg_def)

lemma sq_reduce_mean:
  "is_double x \<Longrightarrow>
   sq_reduce (x # xs) sq ns
     = Inr (foldl (\<lambda>sq n. js_add sq (js_pow2 (js_sub n (avg (x # xs))))) sq ns)"
  by (induction ns arbitrary: sq) (simp_all add: sq_callback_mean)

lemma std_is_population_std:
  assumes "xs \<noteq> []" and "is_double (hd xs)"
  shows "std xs = Inr (spec_population_std xs)"
proof -
  from assms(1) obtain x r where xs: "xs = x # r" by (cases xs) auto
  with assms(2) have "is_double x" by simp
  then have "sq_reduce (x # r) (Fin 0) (x # r)
      = Inr (foldl (\<lambda>sq n. js_add sq (js_pow2 (js_sub n (avg (x # r))))) (Fin 0) (x # r))"
    by (rule sq_reduce_mean)
  then show ?thesis
    unfolding xs std_def spec_population_std_def by (simp del: sq_reduce.simps)
qed

lemma zero_deviations:
  "\<forall>x \<in> set ns. x = Fin v \<Longrightarrow>
   foldl (\<lambda>sq n. js_add sq (js_pow2 (js_sub n (Fin v)))) (Fin 0) ns = Fin 0"
  by (induction ns) (simp_all add: js_sub_def js_pow2_def round_double_zero)

lemma constant_series_std:
  assumes "xs \<noteq> []" and "\<forall>x \<in> set xs. x = Fin v" and "avg xs = Fin v"
  shows "spec_population_std xs = Fin 0"
proof -
  from assms(1) have "(of_nat (length xs) :: rat) \<noteq> 0" by simp
  then show ?thesis
    by (simp add: spec_population_std_def assms(3) zero_deviations [OF assms(2)] js_of_nat_def
        round_double_zero)
qed

text \<open>
  Within the engine's limit no spread call raises, and beyond it the first one does.
\<close>

lemma raising_values_within:
  assumes "length sd \<le> max_args"
    and "std (map temperature sd) = Inr t"
    and "std (map humidity sd) = Inr h"
  shows "raising_values max_args sd
     = Inr \<lparr> temp_min = Math_min (map temperature sd), temp_max = Math_max (map temperature sd),
             temp_std = t,
             hum_min = Math_min (map humidity sd), hum_max = Math_max (map humidity sd),
             hum_std = h,
             bat_min = Math_min (map battery_voltage sd),
             bat_max = Math_max (map battery_voltage sd) \<rparr>"
  using assms by (simp add: raising_values_def and_then_def spread_def)

lemma raising_values_beyond:
  "max_args < length sd \<Longrightarrow> raising_values max_args sd = Inl RangeError"
  by (simp add: raising_values_def and_then_def spread_def)

lemma handler_reports:
  assumes "sensorData s \<noteq> []"
    and "length (sensorData s) \<le> max_args"
    and "std (map temperature (sensorData s)) = Inr t"
    and "std (map humidity (sensorData s)) = Inr h"
  shows "map_option temperature_std (reported_stats (statistics_handler max_args s)) = Some t"
    and "map_option humidity_std (reported_stats (statistics_handler max_args s)) = Some h"
  using assms(1)
  by (simp_all add: statistics_handler_def raising_values_within [OF assms(2-4)] and_then_def
      reported_stats_def json_def build_stats_def)

lemma handler_raises:
  assumes "max_args < length (sensorData s)"
  shows "statistics_handler max_args s = Inl RangeError"
proof -
  from assms have "sensorData s \<noteq> []"
    by auto
  with assms show ?thesis
    by (simp add: statistics_handler_def raising_values_beyond and_then_def)
qed

text \<open>
  Claim C3, as amended. \<open>max_args\<close> is the greatest number of arguments that the engine
  lets a call take. For every non-empty store of doubles (every store that the loader
  builds is one) with at most \<open>max_args\<close> records, the reported temperature and humidity
  \<^verbatim>\<open>std\<close> equal the population standard deviation of that series, computed in double
  arithmetic: the squared deviations from the mean of the same series, summed, divided by
  \<open>n\<close>, and square-rooted. For a series whose values all equal one finite number the
  result is exactly \<open>0\<close> whenever the computed mean of the series is that number, as it is
  for \<open>n\<close> readings of an integer \<open>k\<close> with \<open>n\<cdot>|k| \<le> 2^53\<close>. For a store with more than
  \<open>max_args\<close> records the handler reports nothing: the call \<^verbatim>\<open>Math.min(...tempData)\<close>
  raises a \<^verbatim>\<open>RangeError\<close>.
\<close>

theorem reported_std_is_population_std:
  assumes "sensorData s \<noteq> []"
    and "\<forall>r \<in> set (sensorData s). is_double (temperature r) \<and> is_double (humidity r)"
  shows "(length (sensorData s) \<le> max_args \<longrightarrow>
            map_option temperature_std (reported_stats (statistics_handler max_args s))
              = Some (spec_population_std (map temperature (sensorData s)))
          \<and> map_option humidity_std (reported_stats (statistics_handler max_args s))
              = Some (spec_population_std (map humidity (sensorData s)))
          \<and> ((\<forall>r \<in> set (sensorData s). temperature r = Fin v)
               \<and> avg (map temperature (sensorData s)) = Fin v \<longrightarrow>
             map_option temperature_std (reported_stats (statistics_handler max_args s))
               = Some (Fin 0))
          \<and> ((\<forall>r \<in> set (sensorData s). humidity r = Fin w)
               \<and> avg (map humidity (sensorData s)) = Fin w \<longrightarrow>
             map_option humidity_std (reported_stats (statistics_handler max_args s))
               = Some (Fin 0))
          \<and> ((\<forall>r \<in> set (sensorData s). temperature r = Fin (of_int k))
               \<and> int (length (sensorData s)) * \<bar>k\<bar> \<le> 2 ^ 53 \<longrightarrow>
             map_option temperature_std (reported_stats (statistics_handler max_args s))
               = Some (Fin 0))
          \<and> ((\<forall>r \<in> set (sensorData s). humidity r = Fin (of_int l))
               \<and> int (length (sensorData s)) * \<bar>l\<bar> \<le> 2 ^ 53 \<longrightarrow>
             map_option humidity_std (reported_stats (statistics_handler max_args s))
               = Some (Fin 0)))
       \<and> (max_args < length (sensorData s) \<longrightarrow>
            statistics_handler max_args s = Inl RangeError
          \<and> reported_stats (statistics_handler max_args s) = None)"
proof -
  let ?sd = "sensorData s"
  from assms have dt: "is_double (hd (map temperature ?sd))"
    and dh: "is_double (hd (map humidity ?sd))"
    by (simp_all add: hd_map)
  from assms(1) have ne: "map temperature ?sd \<noteq> []" "map humidity ?sd \<noteq> []"
    by simp_all
  have t: "std (map temperature ?sd) = Inr (spec_population_std (map temperature ?sd))"
    by (rule std_is_population_std [OF ne(1) dt])
  have h: "std (map humidity ?sd) = Inr (spec_population_std (map humidity ?sd))"
    by (rule std_is_population_std [OF ne(2) dh])
  have ct: "spec_population_std (map temperature ?sd) = Fin 0"
    if "\<forall>r \<in> set ?sd. temperature r = Fin u" and "avg (map temperature ?sd) = Fin u" for u
    using that by (intro constant_series_std [OF ne(1)]) auto
  have ch: "spec_population_std (map humidity ?sd) = Fin 0"
    if "\<forall>r \<in> set ?sd. humidity r = Fin u" and "avg (map humidity ?sd) = Fin u" for u
    using that by (intro constant_series_std [OF ne(2)]) auto
  have it: "spec_population_std (map temperature ?sd) = Fin 0"
    if c: "\<forall>r \<in> set ?sd. temperature r = Fin (of_int k)"
      and b: "int (length ?sd) * \<bar>k\<bar> \<le> 2 ^ 53"
  proof -
    from c have "\<forall>x \<in> set (map temperature ?sd). x = Fin (of_int k)" by auto
    moreover from b have "int (length (map temperature ?sd)) * \<bar>k\<bar> \<le> 2 ^ 53" by simp
    ultimately have "avg (map temperature ?sd) = Fin (of_int k)"
      by (rule constant_int_mean [OF ne(1)])
    with c show ?thesis by (rule ct)
  qed
  have ih: "spec_population_std (map humidity ?sd) = Fin 0"
    if c: "\<forall>r \<in> set ?sd. humidity r = Fin (of_int l)"
      and b: "int (length ?sd) * \<bar>l\<bar> \<le> 2 ^ 53"
  proof -
    from c have "\<forall>x \<in> set (map humidity ?sd). x = Fin (of_int l)" by auto
    moreover from b have "int (length (map humidity ?sd)) * \<bar>l\<bar> \<le> 2 ^ 53" by simp
    ultimately have "avg (map humidity ?sd) = Fin (of_int l)"
      by (rule constant_int_mean [OF ne(2)])
    with c show ?thesis by (rule ch)
  qed
  show ?thesis
  proof ((rule conjI; rule impI), goal_cases)
    case 1
    note ts = handler_reports(1) [OF assms(1) 1 t h]
      and hs = handler_reports(2) [OF assms(1) 1 t h]
    from ct [of v] ch [of w] it ih show ?case
      unfolding ts hs by blast
  next
    case 2
    then have "statistics_handler max_args s = Inl RangeError"
      by (rule handler_raises)
    then show ?case
      by (simp add: reported_stats_def)
  qed
qed

theorem reported_std_is_population_std_witness:
  "sensorData sample_server \<noteq> []
   \<and> is_double (Fin 21) \<and> is_double (Fin 22) \<and> is_double (Fin 23)
   \<and> is_double (Fin 40) \<and> is_double (Fin 41) \<and> is_double (Fin 42)
   \<and> length (sensorData sample_server) \<le> sample_max_args
   \<and> map_option temperature_std
       (reported_stats (statistics_handler sample_max_args sample_server))
       = Some (spec_population_std [Fin 21, Fin 22, Fin 23])
   \<and> map humidity (sensorData tenth_server) = [Fin 40, Fin 40, Fin 40]
   \<and> avg (map humidity (sensorData tenth_server)) = Fin 40
   \<and> int (length (sensorData tenth_server)) * \<bar>40\<bar> \<le> 2 ^ 53
   \<and> length (sensorData tenth_server) \<le> sample_max_args
   \<and> map_option humidity_std
       (reported_stats (statistics_handler sample_max_args tenth_server)) = Some (Fin 0)
   \<and> sensorData large_server = replicate 130000 record_a
   \<and> sample_max_args < length (sensorData large_server)
   \<and> statistics_handler sample_max_args large_server = Inl RangeError"
proof -
  have ne: "sensorData sample_server \<noteq> []"
    by (simp add: sample_server_def)
  have d: "is_double (Fin 21)" "is_double (Fin 22)" "is_double (Fin 23)"
    "is_double (Fin 40)" "is_double (Fin 41)" "is_double (Fin 42)"
    by (simp_all add: is_double_def js_eval)
  then have ds: "\<forall>r \<in> set (sensorData sample_server).
      is_double (temperature r) \<and> is_double (humidity r)"
    by (simp add: sample_server_def record_a_def record_b_def record_c_def)
  have le: "length (sensorData sample_server) \<le> sample_max_args"
    by (simp add: sample_server_def sample_max_args_def)
  have ne': "sensorData tenth_server \<noteq> []"
    by (simp add: tenth_server_def)
  have hums: "map humidity (sensorData tenth_server) = [Fin 40, Fin 40, Fin 40]"
    by (simp add: tenth_server_def tenth_record_def processedRow_def js_eval)
  have ds': "\<forall>r \<in> set (sensorData tenth_server).
      is_double (temperature r) \<and> is_double (humidity r)"
    by (simp add: tenth_server_def tenth_record_def loader_stores_doubles)
  have all40: "\<forall>r \<in> set (sensorData tenth_server). humidity r = Fin (of_int 40)"
  proof
    fix r assume "r \<in> set (sensorData tenth_server)"
    then have "humidity r \<in> set (map humidity (sensorData tenth_server))" by simp
    then show "humidity r = Fin (of_int 40)" unfolding hums by simp
  qed
  have avg40: "avg (map humidity (sensorData tenth_server)) = Fin 40"
    unfolding hums by (simp add: js_eval)
  have bound: "int (length (sensorData tenth_server)) * \<bar>40\<bar> \<le> 2 ^ 53"
    by (simp add: tenth_server_def)
  have le': "length (sensorData tenth_server) \<le> sample_max_args"
    by (simp add: tenth_server_def sample_max_args_def)
  have big: "sensorData large_server = replicate 130000 record_a"
    by (simp add: large_server_def)
  have ne'': "sensorData large_server \<noteq> []"
    by (simp add: big)
  have ds'': "\<forall>r \<in> set (sensorData large_server).
      is_double (temperature r) \<and> is_double (humidity r)"
    using d by (simp add: big record_a_def)
  have gt: "sample_max_args < length (sensorData large_server)"
    by (simp add: big sample_max_args_def)
  from reported_std_is_population_std [OF ne ds, of sample_max_args] le
  have a: "map_option temperature_std
       (reported_stats (statistics_handler sample_max_args sample_server))
       = Some (spec_population_std [Fin 21, Fin 22, Fin 23])"
    by (simp add: sample_server_def record_a_def record_b_def record_c_def)
  from reported_std_is_population_std [OF ne' ds', of sample_max_args _ _ _ 40] le' all40 bound
  have b: "map_option humidity_std
       (reported_stats (statistics_handler sample_max_args tenth_server)) = Some (Fin 0)"
    by blast
  from reported_std_is_population_std [OF ne'' ds'', of sample_max_args] gt
  have c: "statistics_handler sample_max_args large_server = Inl RangeError"
    by blast
  from ne d le a hums avg40 bound le' b big gt c show ?thesis by blast
qed

text \<open>
  The claim as the specification states it fails for three readings of \<open>0.1\<close>: their sum
  is rounded, the computed mean is not \<open>0.1\<close>, and the reported deviation is \<open>2^-56\<close>.
\<close>

theorem constant_series_std_counterexample:
  "map temperature (sensorData tenth_server)
     = [parseFloat ''0.1'', parseFloat ''0.1'', parseFloat ''0.1'']
   \<and> length (sensorData tenth_server) \<le> sample_max_args
   \<and> map_option temperature_std
       (reported_stats (statistics_handler sample_max_args tenth_server))
     = Some (Fin (1 / 72057594037927936))"
proof -
  have temps: "map temperature (sensorData tenth_server)
     = [Fin (3602879701896397 / 36028797018963968), Fin (3602879701896397 / 36028797018963968),
        Fin (3602879701896397 / 36028797018963968)]"
    by (simp add: tenth_server_def tenth_record_def processedRow_def js_eval)
  have hums: "map humidity (sensorData tenth_server) = [Fin 40, Fin 40, Fin 40]"
    by (simp add: tenth_server_def tenth_record_def processedRow_def js_eval)
  have p: "parseFloat ''0.1'' = Fin (3602879701896397 / 36028797018963968)"
    by (simp add: js_eval)
  have t: "std (map temperature (sensorData tenth_server)) = Inr (Fin (1 / 72057594037927936))"
    unfolding temps by (simp add: js_eval)
  have h: "std (map humidity (sensorData tenth_server)) = Inr (Fin 0)"
    unfolding hums by (simp add: js_eval)
  have ne: "sensorData tenth_server \<noteq> []"
    by (simp add: tenth_server_def)
  have le: "length (sensorData tenth_server) \<le> sample_max_args"
    by (simp add: tenth_server_def sample_max_args_def)
  from handler_reports(1) [OF ne le t h] temps p le show ?thesis
    by simp
qed

section \<open>The correlation\<close>

lemma sum_xy_from_zip:
  "i + length xs \<le> length y \<Longrightarrow>
   sum_xy_from i y acc xs = foldl js_add acc (map2 js_mul xs (drop i y))"
proof (induction xs arbitrary: i acc)
  case Nil
  then show ?case by simp
next
  case (Cons v vs)
  then have i: "i < length y" by simp
  then have d: "drop i y = y ! i # drop (Suc i) y"
    by (simp add: Cons_nth_drop_Suc)
  from Cons.prems have "Suc i + length vs \<le> length y" by simp
  from Cons.IH [OF this] i show ?case
    by (simp add: d at_index_def)
qed

lemma sum_squares_zip:
  "foldl (\<lambda>sum val. js_add sum (js_mul val val)) acc xs
     = foldl js_add acc (map2 js_mul xs xs)"
  by (induction xs arbitrary: acc) simp_all

lemma calculateCorrelation_spec:
  assumes "length x = length y"
  shows "calculateCorrelation x y = spec_correlation x y"
proof -
  have xy: "sum_xy_from 0 y (Fin 0) x = series_sum (map2 js_mul x y)"
    using assms by (simp add: sum_xy_from_zip series_sum_def)
  have vx: "variance_term (length x) (reduce (\<lambda>sum val. js_add sum (js_mul val val)) (Fin 0) x)
               (reduce js_add (Fin 0) x) = spec_variance_term x"
    by (simp add: variance_term_def spec_variance_term_def reduce_def sum_squares_zip
        series_sum_def)
  have vy: "variance_term (length x) (reduce (\<lambda>sum val. js_add sum (js_mul val val)) (Fin 0) y)
               (reduce js_add (Fin 0) y) = spec_variance_term y"
    using assms
    by (simp add: variance_term_def spec_variance_term_def reduce_def sum_squares_zip
        series_sum_def)
  show ?thesis
    unfolding calculateCorrelation_def correlation_of_sums_def xy vx vy
    by (simp add: correlation_result_def spec_correlation_def spec_denominator_def
        spec_numerator_def js_strict_eq_def reduce_def series_sum_def)
qed

lemma self_numerator: "spec_numerator x x = spec_variance_term x"
  by (simp add: spec_numerator_def spec_variance_term_def)

lemma one_to_three_places: "js_toFixed 3 (round_double 1) = Text ''1.000''"
  by (simp add: js_eval)

text \<open>
  Claim C2, as amended. For series \<open>x\<close> and \<open>y\<close> of equal length,
  \<^verbatim>\<open>calculateCorrelation\<close> evaluates the Pearson formula in double arithmetic and returns
  the quotient formatted to three decimal places, and the number \<open>0\<close> when the computed
  denominator is \<open>0\<close>. It returns \<open>0\<close> whenever the computed term
  \<open>n\<Sigma>x\<^sup>2 - (\<Sigma>x)\<^sup>2\<close> of one series is \<open>0\<close> and that of the other is finite, as
  for two constant series of integers \<open>k\<close> and \<open>l\<close> with \<open>(nk)\<^sup>2\<close> and \<open>(nl)\<^sup>2\<close> at
  most \<open>2^53\<close>. The correlation of a series with itself is \<^verbatim>\<open>1.000\<close> whenever that
  term \<open>A\<close> is finite and not zero and the computed denominator, the square root of
  \<open>A\<cdot>A\<close>, is \<open>A\<close>, as it is when \<open>A\<close> is a positive integer with \<open>A\<^sup>2 \<le> 2^53\<close>.
\<close>

theorem correlation_in_double_arithmetic:
  assumes "length x = length y"
  shows "calculateCorrelation x y = spec_correlation x y
       \<and> (spec_denominator x y = Fin 0 \<longrightarrow> calculateCorrelation x y = JNum (Fin 0))
       \<and> (spec_variance_term x = Fin 0 \<and> spec_variance_term y = Fin b \<longrightarrow>
            calculateCorrelation x y = JNum (Fin 0))
       \<and> ((\<forall>v \<in> set x. v = Fin (of_int k)) \<and> (\<forall>v \<in> set y. v = Fin (of_int l))
            \<and> (int (length x) * k) * (int (length x) * k) \<le> 2 ^ 53
            \<and> (int (length y) * l) * (int (length y) * l) \<le> 2 ^ 53 \<longrightarrow>
            calculateCorrelation x y = JNum (Fin 0))
       \<and> (a \<noteq> 0 \<and> spec_variance_term x = Fin a \<and> spec_denominator x x = Fin a \<longrightarrow>
            calculateCorrelation x x = JText (Text ''1.000''))
       \<and> (0 < m \<and> m * m \<le> 2 ^ 53 \<and> spec_variance_term x = Fin (of_int m) \<longrightarrow>
            calculateCorrelation x x = JText (Text ''1.000''))"
proof -
  have c: "calculateCorrelation x y = spec_correlation x y"
    by (rule calculateCorrelation_spec [OF assms])
  have z: "spec_denominator x y = Fin 0 \<longrightarrow> calculateCorrelation x y = JNum (Fin 0)"
    by (simp add: c spec_correlation_def)
  have k: "calculateCorrelation x y = JNum (Fin 0)"
    if "spec_variance_term x = Fin 0" and "spec_variance_term y = Fin u" for u
    using that by (simp add: c spec_correlation_def spec_denominator_def round_double_zero)
  have i: "calculateCorrelation x y = JNum (Fin 0)"
    if "\<forall>v \<in> set x. v = Fin (of_int k)" and "\<forall>v \<in> set y. v = Fin (of_int l)"
      and "(int (length x) * k) * (int (length x) * k) \<le> 2 ^ 53"
      and "(int (length y) * l) * (int (length y) * l) \<le> 2 ^ 53"
  proof -
    from that(1,3) have "spec_variance_term x = Fin 0"
      by (rule constant_int_variance_term)
    moreover from that(2,4) have "spec_variance_term y = Fin 0"
      by (rule constant_int_variance_term)
    ultimately show ?thesis by (rule k)
  qed
  have s: "calculateCorrelation x x = JText (Text ''1.000'')"
    if h: "u \<noteq> 0" "spec_variance_term x = Fin u" "spec_denominator x x = Fin u" for u
  proof -
    have "calculateCorrelation x x = spec_correlation x x"
      by (rule calculateCorrelation_spec) simp
    also from h have "\<dots> = JText (js_toFixed 3 (js_div (Fin u) (Fin u)))"
      by (simp add: spec_correlation_def self_numerator)
    also from h have "\<dots> = JText (Text ''1.000'')"
      by (simp add: one_to_three_places)
    finally show ?thesis .
  qed
  have q: "calculateCorrelation x x = JText (Text ''1.000'')"
    if h: "0 < m" "m * m \<le> 2 ^ 53" "spec_variance_term x = Fin (of_int m)"
  proof -
    from h(1) have nz: "(of_int m :: rat) \<noteq> 0" by simp
    from h(3) have "spec_denominator x x = js_sqrt (js_mul (Fin (of_int m)) (Fin (of_int m)))"
      by (simp only: spec_denominator_def)
    also have "\<dots> = Fin (of_int m)"
      by (rule sqrt_of_square [OF h(1,2)])
    finally show ?thesis
      by (rule s [OF nz h(3)])
  qed
  from c z k [of b] i s [of a] q show ?thesis by blast
qed

theorem correlation_in_double_arithmetic_witness:
  "length [Fin 2, Fin 2, Fin 2] = length [Fin 1, Fin 2, Fin 3]
   \<and> spec_variance_term [Fin 2, Fin 2, Fin 2] = Fin 0
   \<and> spec_variance_term [Fin 1, Fin 2, Fin 3] = Fin 6
   \<and> spec_denominator [Fin 1, Fin 2, Fin 3] [Fin 1, Fin 2, Fin 3] = Fin 6
   \<and> calculateCorrelation [Fin 2, Fin 2, Fin 2] [Fin 1, Fin 2, Fin 3] = JNum (Fin 0)
   \<and> calculateCorrelation [Fin 1, Fin 2, Fin 3] [Fin 1, Fin 2, Fin 3] = JText (Text ''1.000'')
   \<and> calculateCorrelation [Fin 2, Fin 2, Fin 2] [Fin 5, Fin 5, Fin 5] = JNum (Fin 0)"
proof -
  have l: "length [Fin 2, Fin 2, Fin 2] = length [Fin 1, Fin 2, Fin 3]"
    by simp
  have v2: "spec_variance_term [Fin 2, Fin 2, Fin 2] = Fin 0"
    by (simp add: spec_variance_term_def series_sum_def js_eval)
  have v1: "spec_variance_term [Fin 1, Fin 2, Fin 3] = Fin 6"
    by (simp add: spec_variance_term_def series_sum_def js_eval)
  have d1: "spec_denominator [Fin 1, Fin 2, Fin 3] [Fin 1, Fin 2, Fin 3] = Fin 6"
    unfolding spec_denominator_def v1 by (simp add: js_eval)
  from correlation_in_double_arithmetic [OF l, of 6] v2 v1
  have a: "calculateCorrelation [Fin 2, Fin 2, Fin 2] [Fin 1, Fin 2, Fin 3] = JNum (Fin 0)"
    by blast
  have l': "length [Fin 1, Fin 2, Fin 3] = length [Fin 1, Fin 2, Fin 3]"
    by simp
  have six: "(6::rat) \<noteq> 0"
    by simp
  have v1': "spec_variance_term [Fin 1, Fin 2, Fin 3] = Fin (of_int 6)"
    using v1 by simp
  have m6: "(0::int) < 6" "(6::int) * 6 \<le> 2 ^ 53"
    by simp_all
  from correlation_in_double_arithmetic [OF l', of _ _ _ _ 6] v1' m6
  have b: "calculateCorrelation [Fin 1, Fin 2, Fin 3] [Fin 1, Fin 2, Fin 3]
      = JText (Text ''1.000'')"
    by blast
  have l'': "length [Fin 2, Fin 2, Fin 2] = length [Fin 5, Fin 5, Fin 5]"
    by simp
  have c2: "\<forall>v \<in> set [Fin 2, Fin 2, Fin 2]. v = Fin (of_int 2)"
    and c5: "\<forall>v \<in> set [Fin 5, Fin 5, Fin 5]. v = Fin (of_int 5)"
    by simp_all
  have b2: "(int (length [Fin 2, Fin 2, Fin 2]) * 2) * (int (length [Fin 2, Fin 2, Fin 2]) * 2)
      \<le> 2 ^ 53"
    and b5: "(int (length [Fin 5, Fin 5, Fin 5]) * 5) * (int (length [Fin 5, Fin 5, Fin 5]) * 5)
      \<le> 2 ^ 53"
    by simp_all
  from correlation_in_double_arithmetic [OF l'', of _ 2 5] c2 c5 b2 b5
  have c: "calculateCorrelation [Fin 2, Fin 2, Fin 2] [Fin 5, Fin 5, Fin 5] = JNum (Fin 0)"
    by blast
  from l v2 v1 d1 a b c show ?thesis by blast
qed

text \<open>
  The claim as the specification states it fails in both particular cases. Two series of
  three readings of \<open>0.3\<close> are constant, and their correlation is \<^verbatim>\<open>1.000\<close>, not
  \<open>0\<close>: rounding leaves the term \<open>n\<Sigma>x\<^sup>2 - (\<Sigma>x)\<^sup>2\<close> at \<open>2^-52\<close>. The series
  \<open>100000000.1, 100000000.2\<close> is not constant, and its correlation with itself is
  \<^verbatim>\<open>-1.000\<close>: rounding makes that term negative.
\<close>

theorem correlation_rounding_counterexample:
  "parseFloat ''0.3'' = Fin (5404319552844595 / 18014398509481984)
   \<and> calculateCorrelation
       [Fin (5404319552844595 / 18014398509481984), Fin (5404319552844595 / 18014398509481984),
        Fin (5404319552844595 / 18014398509481984)]
       [Fin (5404319552844595 / 18014398509481984), Fin (5404319552844595 / 18014398509481984),
        Fin (5404319552844595 / 18014398509481984)]
     = JText (Text ''1.000'')
   \<and> parseFloat ''100000000.1'' = Fin (3355443203355443 / 33554432)
   \<and> parseFloat ''100000000.2'' = Fin (6710886413421773 / 67108864)
   \<and> calculateCorrelation
       [Fin (3355443203355443 / 33554432), Fin (6710886413421773 / 67108864)]
       [Fin (3355443203355443 / 33554432), Fin (6710886413421773 / 67108864)]
     = JText (Text ''-1.000'')"
proof -
  have a: "parseFloat ''0.3'' = Fin (5404319552844595 / 18014398509481984)"
    by (simp add: js_eval)
  have b: "calculateCorrelation
       [Fin (5404319552844595 / 18014398509481984), Fin (5404319552844595 / 18014398509481984),
        Fin (5404319552844595 / 18014398509481984)]
       [Fin (5404319552844595 / 18014398509481984), Fin (5404319552844595 / 18014398509481984),
        Fin (5404319552844595 / 18014398509481984)]
     = JText (Text ''1.000'')"
    by (simp add: js_eval)
  have c: "parseFloat ''100000000.1'' = Fin (3355443203355443 / 33554432)"
    by (simp add: js_eval)
  have d: "parseFloat ''100000000.2'' = Fin (6710886413421773 / 67108864)"
    by (simp add: js_eval)
  have e: "calculateCorrelation
       [Fin (3355443203355443 / 33554432), Fin (6710886413421773 / 67108864)]
       [Fin (3355443203355443 / 33554432), Fin (6710886413421773 / 67108864)]
     = JText (Text ''-1.000'')"
    by (simp add: js_eval)
  from a b c d e show ?thesis by blast
qed

end
